theory Spec2Isabelle
  imports Complex_Main "HOL-Library.Sublist"
begin

section \<open>Employee directory builder: strings\<close>

text \<open>
  The repository holds two versions of one Streamlit script:
  \<^verbatim>\<open>Employee_List_Formatter.py\<close> and a second copy that calls itself
  \<^verbatim>\<open>app.py\<close>. Both define \<^verbatim>\<open>digits_only\<close> and
  \<^verbatim>\<open>format_us_phone\<close>, an extraction function and a renderer. The
  definitions of the second copy carry the suffix \<open>_app\<close> where the name is shared.

  A Python \<^verbatim>\<open>str\<close> is modelled as a \<open>string\<close>, one \<open>char\<close> per
  code point, so the model covers the code points below 256. In that range the decimal
  digits of the regular expression class \<^verbatim>\<open>\d\<close> are \<open>0\<close> to \<open>9\<close>,
  and the whitespace that \<^verbatim>\<open>str.strip\<close> removes is the set listed in
  \<open>is_space\<close>.
\<close>

definition nl :: char where
  "nl = CHR 0x0A"

definition is_digit :: "char \<Rightarrow> bool" where
  "is_digit c = (c \<in> set ''0123456789'')"

definition is_space :: "char \<Rightarrow> bool" where
  "is_space c = (c \<in> set [CHR 0x09, CHR 0x0A, CHR 0x0B, CHR 0x0C, CHR 0x0D,
                           CHR 0x1C, CHR 0x1D, CHR 0x1E, CHR 0x1F, CHR 0x20,
                           CHR 0x85, CHR 0xA0])"

text \<open>\<^verbatim>\<open>s.rstrip()\<close>, \<^verbatim>\<open>s.lstrip()\<close> and \<^verbatim>\<open>s.strip()\<close>.\<close>

definition rstrip :: "string \<Rightarrow> string" where
  "rstrip s = rev (dropWhile is_space (rev s))"

definition lstrip :: "string \<Rightarrow> string" where
  "lstrip s = dropWhile is_space s"

definition strip :: "string \<Rightarrow> string" where
  "strip s = lstrip (rstrip s)"

text \<open>\<^verbatim>\<open>s or ""\<close> for a \<^verbatim>\<open>str\<close>: the empty string is falsy.\<close>

definition or_empty :: "string \<Rightarrow> string" where
  "or_empty s = (if s = [] then [] else s)"

text \<open>
  \<^verbatim>\<open>s[i:j]\<close> for literal bounds \<open>0 \<le> i \<le> j\<close>; a Python slice is cut
  at the end of the string and never raises. \<^verbatim>\<open>d[1:]\<close> is \<open>drop 1 d\<close>.
\<close>

definition slice :: "nat \<Rightarrow> nat \<Rightarrow> string \<Rightarrow> string" where
  "slice i j s = take (j - i) (drop i s)"

text \<open>\<^verbatim>\<open>d.startswith("1")\<close>.\<close>

definition startswith1 :: "string \<Rightarrow> bool" where
  "startswith1 d = (take 1 d = ''1'')"

section \<open>Phone formatting\<close>

text \<open>
  \<^verbatim>\<open>re.sub(r"\D+", "", s or "")\<close>: every maximal run of non-digits is replaced
  by the empty string, which leaves the digits in their order.
\<close>

definition digits_only :: "string \<Rightarrow> string" where
  "digits_only s = filter is_digit (or_empty s)"

text \<open>\<^verbatim>\<open>format_us_phone\<close> of \<^verbatim>\<open>Employee_List_Formatter.py\<close>.\<close>

definition format_us_phone :: "string \<Rightarrow> string" where
  "format_us_phone raw =
     (let d = digits_only raw in
      if length d = 10 then
        ''('' @ slice 0 3 d @ '') '' @ slice 3 6 d @ ''-'' @ slice 6 10 d
      else if length d = 11 \<and> startswith1 d then
        (let d = drop 1 d in
         ''('' @ slice 0 3 d @ '') '' @ slice 3 6 d @ ''-'' @ slice 6 10 d)
      else strip (or_empty raw))"

text \<open>
  \<^verbatim>\<open>format_us_phone\<close> of the second copy: the last line is
  \<^verbatim>\<open>return raw or ""\<close>, without \<^verbatim>\<open>strip\<close>.
\<close>

definition format_us_phone_app :: "string \<Rightarrow> string" where
  "format_us_phone_app raw =
     (let d = digits_only raw in
      if length d = 10 then
        ''('' @ slice 0 3 d @ '') '' @ slice 3 6 d @ ''-'' @ slice 6 10 d
      else if length d = 11 \<and> startswith1 d then
        (let d = drop 1 d in
         ''('' @ slice 0 3 d @ '') '' @ slice 3 6 d @ ''-'' @ slice 6 10 d)
      else or_empty raw)"

section \<open>JSON values and the dynamic operations of the script\<close>

text \<open>
  What \<^verbatim>\<open>json.loads\<close> returns: \<^verbatim>\<open>None\<close>, a bool, an int, a float, a
  \<^verbatim>\<open>str\<close>, a list or a dict. A dict is an association list in insertion order;
  \<^verbatim>\<open>json.loads\<close> builds dicts whose keys are distinct. Of a float the script only
  reads whether it is zero, so a real stands for it (an infinity or a NaN behaves as any
  non-zero float here).
\<close>

datatype json =
    JNull
  | JBool bool
  | JInt int
  | JFloat real
  | JStr string
  | JArr "json list"
  | JObj "(string \<times> json) list"

text \<open>
  The exceptions of a run that nothing in the script catches: the extraction can raise
  the first two, \<^verbatim>\<open>json.loads\<close> the last two (\<^verbatim>\<open>RecursionError\<close> on text
  nested too deeply, \<^verbatim>\<open>ValueError\<close> on an integer literal beyond the digit limit).
\<close>

datatype error = AttributeError | TypeError | RecursionError | ValueError

definition bind_result :: "error + 'a \<Rightarrow> ('a \<Rightarrow> error + 'b) \<Rightarrow> error + 'b" where
  "bind_result m f = (case m of Inl e \<Rightarrow> Inl e | Inr x \<Rightarrow> f x)"

text \<open>Truth value of a Python object, as \<^verbatim>\<open>or\<close> and \<^verbatim>\<open>not\<close> read it.\<close>

fun truthy :: "json \<Rightarrow> bool" where
  "truthy JNull = False"
| "truthy (JBool b) = b"
| "truthy (JInt i) = (i \<noteq> 0)"
| "truthy (JFloat x) = (x \<noteq> 0)"
| "truthy (JStr s) = (s \<noteq> [])"
| "truthy (JArr xs) = (xs \<noteq> [])"
| "truthy (JObj kvs) = (kvs \<noteq> [])"

text \<open>\<^verbatim>\<open>x or d\<close>.\<close>

definition py_or :: "json \<Rightarrow> json \<Rightarrow> json" where
  "py_or x d = (if truthy x then x else d)"

text \<open>
  \<^verbatim>\<open>x.get(k, d)\<close>: only a dict has the method; on any other object the attribute
  lookup raises \<^verbatim>\<open>AttributeError\<close>.
\<close>

fun dict_get :: "json \<Rightarrow> string \<Rightarrow> json \<Rightarrow> error + json" where
  "dict_get (JObj kvs) k d = Inr (case map_of kvs k of Some v \<Rightarrow> v | None \<Rightarrow> d)"
| "dict_get _ k d = Inl AttributeError"

text \<open>
  \<^verbatim>\<open>for x in v\<close>: a list yields its elements, a \<^verbatim>\<open>str\<close> its characters as
  one-character strings, a dict its keys; anything else raises \<^verbatim>\<open>TypeError\<close>
  before the first iteration.
\<close>

fun py_iter :: "json \<Rightarrow> error + json list" where
  "py_iter (JArr xs) = Inr xs"
| "py_iter (JStr s) = Inr (map (\<lambda>c. JStr [c]) s)"
| "py_iter (JObj kvs) = Inr (map (\<lambda>kv. JStr (fst kv)) kvs)"
| "py_iter _ = Inl TypeError"

text \<open>\<^verbatim>\<open>x.strip()\<close>: only a \<^verbatim>\<open>str\<close> has the method.\<close>

fun str_strip :: "json \<Rightarrow> error + string" where
  "str_strip (JStr s) = Inr (strip s)"
| "str_strip _ = Inl AttributeError"

section \<open>Extraction\<close>

text \<open>The dict that both extraction functions append, with its five keys.\<close>

record entry =
  name :: string
  position :: string
  office_raw :: string
  office_fmt :: string
  email :: string

text \<open>\<^verbatim>\<open>normalize\<close> of \<^verbatim>\<open>Employee_List_Formatter.py\<close>:
  \<^verbatim>\<open>(s or "").strip()\<close>.\<close>

definition normalize :: "json \<Rightarrow> error + string" where
  "normalize s = str_strip (py_or s (JStr []))"

text \<open>The three normalizers of the second copy.\<close>

definition normalize_name :: "json \<Rightarrow> error + string" where
  "normalize_name nam = str_strip (py_or nam (JStr []))"

definition normalize_position :: "json \<Rightarrow> error + string" where
  "normalize_position pos = str_strip (py_or pos (JStr []))"

definition normalize_email :: "json \<Rightarrow> error + string" where
  "normalize_email mail =
     bind_result (str_strip (py_or mail (JStr []))) (\<lambda>e. Inr (if e \<noteq> [] then e else []))"

text \<open>
  The body of the inner loop of \<^verbatim>\<open>to_entries\<close>, for one employee: \<open>None\<close> is
  the \<^verbatim>\<open>continue\<close>, \<open>Some x\<close> the dict that is appended. The name is read and
  tested before the other three fields are touched.
\<close>

definition employee_entry :: "json \<Rightarrow> error + entry option" where
  "employee_entry emp =
     bind_result (dict_get emp ''contact_name'' (JStr [])) (\<lambda>v.
     bind_result (normalize v) (\<lambda>nam.
     if nam = [] then Inr None
     else
       bind_result (dict_get emp ''employee_position'' (JStr [])) (\<lambda>v.
       bind_result (normalize v) (\<lambda>pos.
       bind_result (dict_get emp ''office_number'' (JStr [])) (\<lambda>v.
       bind_result (normalize v) (\<lambda>office.
       bind_result (dict_get emp ''email_address'' (JStr [])) (\<lambda>v.
       bind_result (normalize v) (\<lambda>mail.
       Inr (Some \<lparr>name = nam, position = pos, office_raw = office,
                   office_fmt = format_us_phone office, email = mail\<rparr>)))))))))"

text \<open>
  The same body in \<^verbatim>\<open>to_directory_entries\<close> of the second copy: all four fields
  are normalized first, the name is tested afterwards.
\<close>

definition employee_entry_app :: "json \<Rightarrow> error + entry option" where
  "employee_entry_app emp =
     bind_result (dict_get emp ''contact_name'' (JStr [])) (\<lambda>v.
     bind_result (normalize_name v) (\<lambda>nam.
     bind_result (dict_get emp ''employee_position'' (JStr [])) (\<lambda>v.
     bind_result (normalize_position v) (\<lambda>pos.
     bind_result (dict_get emp ''office_number'' (JStr [])) (\<lambda>v.
     bind_result (str_strip (py_or v (JStr []))) (\<lambda>office.
     bind_result (dict_get emp ''email_address'' (JStr [])) (\<lambda>v.
     bind_result (normalize_email v) (\<lambda>mail.
     if nam = [] then Inr None
     else
       Inr (Some \<lparr>name = nam, position = pos, office_raw = office,
                   office_fmt = format_us_phone_app office, email = mail\<rparr>)))))))))"

text \<open>
  The two nested loops, written once over the loop body \<open>body\<close>; \<open>entries\<close> is the
  list the loops append to. An exception leaves both loops.
\<close>

fun employees_loop ::
  "(json \<Rightarrow> error + entry option) \<Rightarrow> json list \<Rightarrow> entry list \<Rightarrow> error + entry list" where
  "employees_loop body [] entries = Inr entries"
| "employees_loop body (emp # rest) entries =
     (case body emp of
        Inl e \<Rightarrow> Inl e
      | Inr None \<Rightarrow> employees_loop body rest entries
      | Inr (Some x) \<Rightarrow> employees_loop body rest (entries @ [x]))"

fun blocks_loop ::
  "(json \<Rightarrow> error + entry option) \<Rightarrow> json list \<Rightarrow> entry list \<Rightarrow> error + entry list" where
  "blocks_loop body [] entries = Inr entries"
| "blocks_loop body (block # rest) entries =
     (case dict_get (py_or block (JObj [])) ''employees'' (JArr []) of
        Inl e \<Rightarrow> Inl e
      | Inr v \<Rightarrow>
          (case py_iter (py_or v (JArr [])) of
             Inl e \<Rightarrow> Inl e
           | Inr employees \<Rightarrow>
               (case employees_loop body employees entries of
                  Inl e \<Rightarrow> Inl e
                | Inr entries' \<Rightarrow> blocks_loop body rest entries')))"

text \<open>The first half of both extraction functions: the list \<^verbatim>\<open>entries\<close>.\<close>

definition collect_entries :: "(json \<Rightarrow> error + entry option) \<Rightarrow> json \<Rightarrow> error + entry list" where
  "collect_entries body payload =
     bind_result (dict_get payload ''department_employees'' (JArr [])) (\<lambda>v.
     bind_result (py_iter (py_or v (JArr []))) (\<lambda>dept_emps.
     blocks_loop body dept_emps []))"

text \<open>
  The second half, the same in both files: the loop over \<^verbatim>\<open>entries\<close> with the set
  \<^verbatim>\<open>seen\<close> and the list \<^verbatim>\<open>deduped\<close>.
\<close>

definition identity_key :: "entry \<Rightarrow> string \<times> string \<times> string \<times> string" where
  "identity_key e = (name e, position e, office_raw e, email e)"

fun dedupe_loop ::
  "entry list \<Rightarrow> (string \<times> string \<times> string \<times> string) set \<Rightarrow> entry list \<Rightarrow> entry list" where
  "dedupe_loop [] seen deduped = deduped"
| "dedupe_loop (e # es) seen deduped =
     (if identity_key e \<in> seen then dedupe_loop es seen deduped
      else dedupe_loop es (insert (identity_key e) seen) (deduped @ [e]))"

definition dedupe :: "entry list \<Rightarrow> entry list" where
  "dedupe entries = dedupe_loop entries {} []"

definition to_entries :: "json \<Rightarrow> error + entry list" where
  "to_entries payload =
     bind_result (collect_entries employee_entry payload) (\<lambda>entries. Inr (dedupe entries))"

definition to_directory_entries :: "json \<Rightarrow> error + entry list" where
  "to_directory_entries payload =
     bind_result (collect_entries employee_entry_app payload) (\<lambda>entries. Inr (dedupe entries))"

section \<open>Rendering\<close>

text \<open>\<^verbatim>\<open>"\n".join(lines)\<close>.\<close>

fun join_nl :: "string list \<Rightarrow> string" where
  "join_nl [] = []"
| "join_nl [l] = l"
| "join_nl (l # ls) = l @ [nl] @ join_nl ls"

text \<open>
  \<^verbatim>\<open>re.sub(r"\n{3,}", "\n\n", out)\<close>: the scan counts the newlines of the current
  run; a run that ends with three or more of them is written as two, a shorter one as it
  is.
\<close>

definition flush_run :: "nat \<Rightarrow> string" where
  "flush_run n = (if 3 \<le> n then [nl, nl] else replicate n nl)"

fun sub_scan :: "nat \<Rightarrow> string \<Rightarrow> string" where
  "sub_scan n [] = flush_run n"
| "sub_scan n (c # cs) =
     (if c = nl then sub_scan (Suc n) cs else flush_run n @ c # sub_scan 0 cs)"

definition collapse_newlines :: "string \<Rightarrow> string" where
  "collapse_newlines out = sub_scan 0 out"

text \<open>\<^verbatim>\<open>render_directory\<close> of \<^verbatim>\<open>Employee_List_Formatter.py\<close>: the lines
  one entry appends, the loop, and the post-processing.\<close>

definition entry_lines :: "entry \<Rightarrow> string list" where
  "entry_lines e =
     [''    '' @ name e]
     @ (if position e \<noteq> [] then [position e] else [])
     @ (if office_fmt e \<noteq> [] then [''Office: '' @ office_fmt e] else [])
     @ (if email e \<noteq> [] then [''Email: '' @ email e] else [])
     @ [[]]"

fun render_loop :: "(entry \<Rightarrow> string list) \<Rightarrow> entry list \<Rightarrow> string list \<Rightarrow> string list" where
  "render_loop per_entry [] lines = lines"
| "render_loop per_entry (e # es) lines = render_loop per_entry es (lines @ per_entry e)"

definition render_directory :: "entry list \<Rightarrow> string" where
  "render_directory entries =
     (let lines = render_loop entry_lines entries [''## Employee Phone Number Directory'', []];
          out = join_nl lines
      in rstrip (collapse_newlines out) @ [nl])"

text \<open>
  \<^verbatim>\<open>render_directory_markdown\<close> of the second copy. The header line carries its own
  newline, and the position line is appended in every case, empty when the position is
  empty. The list comprehension \<^verbatim>\<open>[ln for ln in lines if ln is not None]\<close> keeps
  every line, since each one is a \<^verbatim>\<open>str\<close>.
\<close>

definition entry_lines_app :: "entry \<Rightarrow> string list" where
  "entry_lines_app e =
     [''    '' @ name e]
     @ [if position e \<noteq> [] then position e else []]
     @ (if office_fmt e \<noteq> [] then [''Office: '' @ office_fmt e] else [])
     @ (if email e \<noteq> [] then [''Email: '' @ email e] else [])
     @ [[]]"

definition render_directory_markdown :: "entry list \<Rightarrow> string" where
  "render_directory_markdown entries =
     (let lines = render_loop entry_lines_app entries [''## Employee Phone Number Directory'' @ [nl]];
          out = join_nl (filter (\<lambda>ln. True) lines)
      in rstrip (collapse_newlines out) @ [nl])"

section \<open>The button handler\<close>












section \<open>What the specification says, for comparison with the code\<close>

text \<open>
  Deduplication in the specification's words. Two entries have the same identity when
  their name, position, raw office value and e-mail address are equal, each compared as a
  whole string; the formatted office value is not compared. An entry is kept when no
  earlier entry of the list has the same identity, and the kept entries stay in their
  order.
\<close>

definition same_identity :: "entry \<Rightarrow> entry \<Rightarrow> bool" where
  "same_identity a b =
     (name a = name b \<and> position a = position b \<and> office_raw a = office_raw b
      \<and> email a = email b)"

definition keep_first :: "entry list \<Rightarrow> entry list" where
  "keep_first es =
     map snd (filter (\<lambda>(i, e). \<not> list_ex (\<lambda>d. same_identity d e) (take i es))
                     (enumerate 0 es))"

text \<open>
  The traversal order of any payload: the department blocks in the order of the sequence
  under \<^verbatim>\<open>department_employees\<close>, within a block the employees in the order of the
  sequence under \<^verbatim>\<open>employees\<close>. A key that is absent or holds a falsy value gives
  no elements, and so does a block that is not a dict. \<open>appended body emp\<close> is what the
  loop body \<open>body\<close> contributes for one employee: the entry it builds, or nothing.
\<close>

definition elements :: "json \<Rightarrow> json list" where
  "elements v = (case py_iter v of Inr xs \<Rightarrow> xs | Inl e \<Rightarrow> [])"

definition sequence_under :: "string \<Rightarrow> json \<Rightarrow> json list" where
  "sequence_under k obj =
     (case obj of
        JObj kvs \<Rightarrow>
          (case map_of kvs k of
             Some v \<Rightarrow> if truthy v then elements v else []
           | None \<Rightarrow> [])
      | _ \<Rightarrow> [])"

definition appended :: "(json \<Rightarrow> error + entry option) \<Rightarrow> json \<Rightarrow> entry list" where
  "appended body emp = (case body emp of Inr (Some x) \<Rightarrow> [x] | _ \<Rightarrow> [])"

definition traversal :: "(json \<Rightarrow> error + entry option) \<Rightarrow> json \<Rightarrow> entry list" where
  "traversal body payload =
     concat (map (\<lambda>block. concat (map (appended body) (sequence_under ''employees'' block)))
                 (sequence_under ''department_employees'' payload))"

text \<open>
  The input of the expected shape: departments in order, each a list of employees, each
  employee given by its four strings (contact name, position, office number, e-mail
  address).
\<close>

definition employee_json :: "string \<times> string \<times> string \<times> string \<Rightarrow> json" where
  "employee_json f =
     (case f of (n, p, off, m) \<Rightarrow>
        JObj [(''contact_name'', JStr n), (''employee_position'', JStr p),
              (''office_number'', JStr off), (''email_address'', JStr m)])"

definition payload_json :: "(string \<times> string \<times> string \<times> string) list list \<Rightarrow> json" where
  "payload_json depts =
     JObj [(''department_employees'',
            JArr (map (\<lambda>emps. JObj [(''employees'', JArr (map employee_json emps))]) depts))]"

text \<open>The directory entry of one employee, and the entries of a payload in traversal
  order: department order, then employee order, employees without a name left out.\<close>

definition entry_of_fields :: "string \<times> string \<times> string \<times> string \<Rightarrow> entry" where
  "entry_of_fields f =
     (case f of (n, p, off, m) \<Rightarrow>
        \<lparr>name = strip n, position = strip p, office_raw = strip off,
         office_fmt = format_us_phone (strip off), email = strip m\<rparr>)"

definition entries_in_order :: "(string \<times> string \<times> string \<times> string) list list \<Rightarrow> entry list" where
  "entries_in_order depts =
     map entry_of_fields (filter (\<lambda>f. strip (fst f) \<noteq> []) (concat depts))"

text \<open>
  The rendering in the specification's words: the header line and one blank line, then
  for each entry in order the name after four spaces, the position, the office line and
  the e-mail line where the field is not empty, and a blank line. Every line ends with
  its newline.
\<close>

definition entry_block :: "entry \<Rightarrow> string" where
  "entry_block e =
     ''    '' @ name e @ [nl]
     @ (if position e \<noteq> [] then position e @ [nl] else [])
     @ (if office_fmt e \<noteq> [] then ''Office: '' @ office_fmt e @ [nl] else [])
     @ (if email e \<noteq> [] then ''Email: '' @ email e @ [nl] else [])
     @ [nl]"

definition directory_text :: "entry list \<Rightarrow> string" where
  "directory_text entries =
     ''## Employee Phone Number Directory'' @ [nl] @ [nl] @ concat (map entry_block entries)"

text \<open>
  The payloads the guards of the extraction tolerate. A value is \<open>stringy\<close> when it is a
  string or falsy (\<^verbatim>\<open>None\<close>, \<^verbatim>\<open>False\<close>, \<open>0\<close>, \<open>0.0\<close>, an empty list or
  dict). An employee is a dict whose four fields are absent or stringy; the
  \<^verbatim>\<open>employees\<close> of a block are absent, falsy or a list of such employees; a block is
  falsy or a dict; \<^verbatim>\<open>department_employees\<close> is absent, falsy or a list of such
  blocks; the payload is a dict.
\<close>

definition stringy :: "json \<Rightarrow> bool" where
  "stringy v = (case v of JStr s \<Rightarrow> True | _ \<Rightarrow> \<not> truthy v)"

definition field_ok :: "(string \<times> json) list \<Rightarrow> string \<Rightarrow> bool" where
  "field_ok kvs k = (case map_of kvs k of None \<Rightarrow> True | Some v \<Rightarrow> stringy v)"

definition employee_ok :: "json \<Rightarrow> bool" where
  "employee_ok emp =
     (case emp of
        JObj kvs \<Rightarrow> field_ok kvs ''contact_name'' \<and> field_ok kvs ''employee_position''
                    \<and> field_ok kvs ''office_number'' \<and> field_ok kvs ''email_address''
      | _ \<Rightarrow> False)"

definition employees_ok :: "json \<Rightarrow> bool" where
  "employees_ok v = (case v of JArr emps \<Rightarrow> list_all employee_ok emps | _ \<Rightarrow> \<not> truthy v)"

definition block_ok :: "json \<Rightarrow> bool" where
  "block_ok b =
     (case b of
        JObj kvs \<Rightarrow> (case map_of kvs ''employees'' of None \<Rightarrow> True | Some v \<Rightarrow> employees_ok v)
      | _ \<Rightarrow> \<not> truthy b)"

definition payload_ok :: "json \<Rightarrow> bool" where
  "payload_ok p =
     (case p of
        JObj kvs \<Rightarrow>
          (case map_of kvs ''department_employees'' of
             None \<Rightarrow> True
           | Some v \<Rightarrow> (case v of JArr blocks \<Rightarrow> list_all block_ok blocks | _ \<Rightarrow> \<not> truthy v))
      | _ \<Rightarrow> False)"

section \<open>Facts about the string functions\<close>

lemma or_empty_id: "or_empty s = s"
  by (simp add: or_empty_def)

lemma digits_only_digits: "list_all is_digit d \<Longrightarrow> digits_only d = d"
  by (simp add: digits_only_def or_empty_id list_all_iff)

lemma digits_only_drop1:
  "list_all is_digit d \<Longrightarrow> digits_only (drop 1 d) = drop 1 d"
  by (cases d) (simp_all add: digits_only_def or_empty_id list_all_iff)

lemma rstrip_fixed: "s = [] \<or> \<not> is_space (last s) \<Longrightarrow> rstrip s = s"
  by (cases s rule: rev_cases) (auto simp: rstrip_def)

lemma lstrip_fixed: "s = [] \<or> \<not> is_space (hd s) \<Longrightarrow> lstrip s = s"
  by (cases s) (auto simp: lstrip_def)

lemma rstrip_last: "rstrip s \<noteq> [] \<Longrightarrow> \<not> is_space (last (rstrip s))"
  unfolding rstrip_def using hd_dropWhile [of is_space "rev s"]
  by (simp add: last_rev)

lemma lstrip_hd: "lstrip s \<noteq> [] \<Longrightarrow> \<not> is_space (hd (lstrip s))"
  unfolding lstrip_def by (rule hd_dropWhile)

lemma lstrip_last: "lstrip s \<noteq> [] \<Longrightarrow> last (lstrip s) = last s"
proof -
  assume ne: "lstrip s \<noteq> []"
  have "s = takeWhile is_space s @ lstrip s"
    by (simp add: lstrip_def)
  then have "last s = last (takeWhile is_space s @ lstrip s)" by simp
  also have "\<dots> = last (lstrip s)" using ne by simp
  finally show ?thesis by simp
qed

lemma strip_hd: "strip s \<noteq> [] \<Longrightarrow> \<not> is_space (hd (strip s))"
  unfolding strip_def by (rule lstrip_hd)

lemma strip_last: "strip s \<noteq> [] \<Longrightarrow> \<not> is_space (last (strip s))"
proof -
  assume ne: "strip s \<noteq> []"
  then have l: "last (strip s) = last (rstrip s)"
    unfolding strip_def by (rule lstrip_last)
  from ne have "rstrip s \<noteq> []"
    by (auto simp: strip_def lstrip_def)
  then show ?thesis using l rstrip_last by simp
qed

lemma strip_fixed: "s = [] \<or> (\<not> is_space (hd s) \<and> \<not> is_space (last s)) \<Longrightarrow> strip s = s"
  by (auto simp: strip_def rstrip_fixed lstrip_fixed)

lemma strip_strip: "strip (strip s) = strip s"
  using strip_hd [of s] strip_last [of s] by (intro strip_fixed) blast

lemma digit_not_space: "is_digit c \<Longrightarrow> \<not> is_space c"
  by (auto simp: is_digit_def is_space_def)

lemma filter_dropWhile_other:
  "(\<And>x. Q x \<Longrightarrow> \<not> P x) \<Longrightarrow> filter P (dropWhile Q xs) = filter P xs"
  by (induction xs) auto

lemma digits_only_strip: "digits_only (strip s) = digits_only s"
proof -
  have l: "filter is_digit (lstrip t) = filter is_digit t" for t
    unfolding lstrip_def using digit_not_space by (intro filter_dropWhile_other) blast
  have "filter is_digit (rev (dropWhile is_space (rev t))) = rev (filter is_digit (dropWhile is_space (rev t)))" for t
    by (simp add: rev_filter)
  also have "rev (filter is_digit (dropWhile is_space (rev t))) = rev (filter is_digit (rev t))" for t
    using digit_not_space by (subst filter_dropWhile_other) blast+
  finally have r: "filter is_digit (rstrip t) = filter is_digit t" for t
    by (simp add: rstrip_def rev_filter)
  show ?thesis by (simp add: digits_only_def or_empty_id strip_def l r)
qed

lemma format_us_phone_app_stripped: "format_us_phone_app (strip s) = format_us_phone (strip s)"
  by (simp add: format_us_phone_def format_us_phone_app_def or_empty_id strip_strip Let_def)

section \<open>Facts about the dedup loop\<close>

lemma dedupe_loop_acc: "dedupe_loop es seen acc = acc @ dedupe_loop es seen []"
proof (induction es arbitrary: seen acc)
  case Nil
  show ?case by simp
next
  case (Cons e es)
  show ?case
  proof (cases "identity_key e \<in> seen")
    case True
    then show ?thesis using Cons.IH [of seen acc] by simp
  next
    case False
    then show ?thesis
      using Cons.IH [of "insert (identity_key e) seen" "acc @ [e]"]
            Cons.IH [of "insert (identity_key e) seen" "[e]"]
      by simp
  qed
qed

lemma dedupe_loop_Cons:
  "dedupe_loop (e # es) seen [] =
     (if identity_key e \<in> seen then dedupe_loop es seen []
      else e # dedupe_loop es (insert (identity_key e) seen) [])"
  using dedupe_loop_acc [of es "insert (identity_key e) seen" "[e]"] by simp

lemma dedupe_loop_keys:
  "set (map identity_key (dedupe_loop es seen [])) = set (map identity_key es) - seen"
proof (induction es arbitrary: seen)
  case Nil
  show ?case by simp
next
  case (Cons e es)
  show ?case unfolding dedupe_loop_Cons using Cons.IH by auto
qed

lemma dedupe_loop_distinct: "distinct (map identity_key (dedupe_loop es seen []))"
proof (induction es arbitrary: seen)
  case Nil
  show ?case by simp
next
  case (Cons e es)
  show ?case unfolding dedupe_loop_Cons using Cons.IH dedupe_loop_keys by auto
qed

lemma dedupe_loop_subseq: "subseq (dedupe_loop es seen []) es"
proof (induction es arbitrary: seen)
  case Nil
  show ?case by simp
next
  case (Cons e es)
  show ?case unfolding dedupe_loop_Cons using Cons.IH by auto
qed

lemma dedupe_loop_idem:
  "dedupe_loop (dedupe_loop es seen []) seen [] = dedupe_loop es seen []"
proof (induction es arbitrary: seen)
  case Nil
  show ?case by simp
next
  case (Cons e es)
  show ?case
  proof (cases "identity_key e \<in> seen")
    case True
    then show ?thesis using Cons.IH [of seen] by (simp only: dedupe_loop_Cons if_True)
  next
    case False
    then show ?thesis using Cons.IH [of "insert (identity_key e) seen"]
      by (simp only: dedupe_loop_Cons if_False)
  qed
qed

lemma dedupe_loop_first:
  "dedupe_loop es seen [] =
     map snd (filter (\<lambda>(i, e). identity_key e \<notin> seen \<union> set (map identity_key (take i es)))
                     (enumerate 0 es))"
proof (induction es arbitrary: seen)
  case Nil
  show ?case by simp
next
  case (Cons e es)
  have shift: "map snd (filter (\<lambda>(i, x). identity_key x \<notin> seen \<union> set (map identity_key (take i (e # es))))
                   (enumerate (Suc 0) es))
             = map snd (filter (\<lambda>(i, x). identity_key x \<notin> insert (identity_key e) seen \<union> set (map identity_key (take i es)))
                   (enumerate 0 es))"
    by (auto simp: enumerate_Suc_eq filter_map comp_def case_prod_beta
          intro!: arg_cong [where f = "map snd"] filter_cong)
  have head: "map snd (filter (\<lambda>(i, x). identity_key x \<notin> seen \<union> set (map identity_key (take i (e # es))))
                   (enumerate 0 (e # es)))
             = (if identity_key e \<in> seen then [] else [e])
               @ map snd (filter (\<lambda>(i, x). identity_key x \<notin> seen \<union> set (map identity_key (take i (e # es))))
                   (enumerate (Suc 0) es))"
    by simp
  show ?case
  proof (cases "identity_key e \<in> seen")
    case True
    then have same: "insert (identity_key e) seen = seen" by auto
    show ?thesis
      unfolding head shift dedupe_loop_Cons using True Cons.IH [of seen] by (simp add: same)
  next
    case False
    show ?thesis
      unfolding head shift dedupe_loop_Cons
      using False Cons.IH [of "insert (identity_key e) seen"] by simp
  qed
qed

section \<open>Facts about the extraction\<close>

lemma bind_result_Inr:
  "bind_result m f = Inr y \<longleftrightarrow> (\<exists>x. m = Inr x \<and> f x = Inr y)"
  by (cases m) (simp_all add: bind_result_def)

lemma bind_result_simps:
  "bind_result (Inr x) f = f x" "bind_result (Inl e) f = Inl e"
  by (simp_all add: bind_result_def)

lemma str_strip_Inr: "str_strip v = Inr t \<longleftrightarrow> (\<exists>s. v = JStr s \<and> t = strip s)"
  by (cases v) auto

lemma bind_result_InrE:
  assumes "bind_result m f = Inr y"
  obtains x where "m = Inr x" and "f x = Inr y"
  using assms by (auto simp: bind_result_Inr)

lemma normalize_name_eq: "normalize_name v = normalize v"
  by (simp add: normalize_name_def normalize_def)

lemma normalize_position_eq: "normalize_position v = normalize v"
  by (simp add: normalize_position_def normalize_def)

lemma normalize_email_eq: "normalize_email v = normalize v"
  by (cases "str_strip (py_or v (JStr []))")
     (simp_all add: normalize_email_def normalize_def bind_result_def)

lemma normalize_Inr_stripped: "normalize v = Inr t \<Longrightarrow> strip t = t"
  by (auto simp: normalize_def str_strip_Inr strip_strip)

lemma format_us_phone_app_fixed: "strip t = t \<Longrightarrow> format_us_phone_app t = format_us_phone t"
  using format_us_phone_app_stripped [of t] by simp

lemma employee_entry_app_unfold:
  "employee_entry_app emp =
     bind_result (dict_get emp ''contact_name'' (JStr [])) (\<lambda>v.
     bind_result (normalize v) (\<lambda>nam.
     bind_result (dict_get emp ''employee_position'' (JStr [])) (\<lambda>v.
     bind_result (normalize v) (\<lambda>pos.
     bind_result (dict_get emp ''office_number'' (JStr [])) (\<lambda>v.
     bind_result (normalize v) (\<lambda>office.
     bind_result (dict_get emp ''email_address'' (JStr [])) (\<lambda>v.
     bind_result (normalize v) (\<lambda>mail.
     if nam = [] then Inr None
     else
       Inr (Some \<lparr>name = nam, position = pos, office_raw = office,
                   office_fmt = format_us_phone_app office, email = mail\<rparr>)))))))))"
  by (simp add: employee_entry_app_def normalize_name_eq normalize_position_eq
        normalize_email_eq normalize_def)

lemma employee_entry_app_imp:
  assumes "employee_entry_app emp = Inr r"
  shows "employee_entry emp = Inr r"
proof -
  from assms obtain v1 nam v2 pos v3 office v4 mail where
    f1: "dict_get emp ''contact_name'' (JStr []) = Inr v1" "normalize v1 = Inr nam" and
    f2: "dict_get emp ''employee_position'' (JStr []) = Inr v2" "normalize v2 = Inr pos" and
    f3: "dict_get emp ''office_number'' (JStr []) = Inr v3" "normalize v3 = Inr office" and
    f4: "dict_get emp ''email_address'' (JStr []) = Inr v4" "normalize v4 = Inr mail" and
    r: "r = (if nam = [] then None
             else Some \<lparr>name = nam, position = pos, office_raw = office,
                        office_fmt = format_us_phone_app office, email = mail\<rparr>)"
    unfolding employee_entry_app_unfold
    by (elim bind_result_InrE) (auto split: if_splits)
  have fmt: "format_us_phone_app office = format_us_phone office"
    using f3(2) by (intro format_us_phone_app_fixed normalize_Inr_stripped)
  show ?thesis
    by (simp add: employee_entry_def f1 f2 f3 f4 r fmt bind_result_simps)
qed

lemma employees_loop_mono:
  assumes "\<And>emp r. f emp = Inr r \<Longrightarrow> g emp = Inr r"
  shows "employees_loop f emps acc = Inr out \<Longrightarrow> employees_loop g emps acc = Inr out"
proof (induction emps arbitrary: acc)
  case Nil
  then show ?case by simp
next
  case (Cons emp emps)
  then show ?case using assms [of emp]
    by (auto split: sum.splits option.splits)
qed

lemma blocks_loop_mono:
  assumes "\<And>emp r. f emp = Inr r \<Longrightarrow> g emp = Inr r"
  shows "blocks_loop f blocks acc = Inr out \<Longrightarrow> blocks_loop g blocks acc = Inr out"
proof (induction blocks arbitrary: acc)
  case Nil
  then show ?case by simp
next
  case (Cons b blocks)
  then show ?case using employees_loop_mono [of f g, OF assms]
    by (auto split: sum.splits)
qed

lemma collect_entries_mono:
  assumes "\<And>emp r. f emp = Inr r \<Longrightarrow> g emp = Inr r"
  shows "collect_entries f p = Inr out \<Longrightarrow> collect_entries g p = Inr out"
  unfolding collect_entries_def bind_result_Inr
  using blocks_loop_mono [of f g, OF assms] by blast

lemma app_returns_imp:
  "to_directory_entries p = Inr es \<Longrightarrow> to_entries p = Inr es"
  unfolding to_directory_entries_def to_entries_def bind_result_Inr
  using collect_entries_mono [of employee_entry_app employee_entry, OF employee_entry_app_imp]
  by blast


lemma stringy_normalize: "stringy v \<Longrightarrow> \<exists>t. normalize v = Inr t"
  by (cases v) (auto simp: stringy_def normalize_def py_or_def)

lemma field_ok_normalize:
  assumes "field_ok kvs k"
  shows "\<exists>v t. dict_get (JObj kvs) k (JStr []) = Inr v \<and> normalize v = Inr t"
proof (cases "map_of kvs k")
  case None
  then show ?thesis by (simp add: normalize_def py_or_def)
next
  case (Some v)
  then have "stringy v" using assms by (simp add: field_ok_def)
  then show ?thesis using Some stringy_normalize by simp
qed

lemma employee_ok_app: 
  assumes "employee_ok emp"
  shows "\<exists>r. employee_entry_app emp = Inr r"
proof -
  from assms obtain kvs where emp: "emp = JObj kvs"
    and ok: "field_ok kvs ''contact_name''" "field_ok kvs ''employee_position''"
            "field_ok kvs ''office_number''" "field_ok kvs ''email_address''"
    by (cases emp) (auto simp: employee_ok_def)
  from field_ok_normalize [OF ok(1)] obtain v1 t1 where
    f1: "dict_get (JObj kvs) ''contact_name'' (JStr []) = Inr v1" "normalize v1 = Inr t1" by blast
  from field_ok_normalize [OF ok(2)] obtain v2 t2 where
    f2: "dict_get (JObj kvs) ''employee_position'' (JStr []) = Inr v2" "normalize v2 = Inr t2" by blast
  from field_ok_normalize [OF ok(3)] obtain v3 t3 where
    f3: "dict_get (JObj kvs) ''office_number'' (JStr []) = Inr v3" "normalize v3 = Inr t3" by blast
  from field_ok_normalize [OF ok(4)] obtain v4 t4 where
    f4: "dict_get (JObj kvs) ''email_address'' (JStr []) = Inr v4" "normalize v4 = Inr t4" by blast
  show ?thesis
    unfolding employee_entry_app_unfold emp
    by (simp only: f1 f2 f3 f4 bind_result_simps) simp
qed

lemma employees_loop_total:
  assumes "\<And>emp. emp \<in> set emps \<Longrightarrow> \<exists>r. body emp = Inr r"
  shows "\<exists>out. employees_loop body emps acc = Inr out"
  using assms
proof (induction emps arbitrary: acc)
  case Nil
  show ?case by simp
next
  case (Cons emp emps)
  from Cons.prems [of emp] obtain r where r: "body emp = Inr r" by auto
  have rest: "\<exists>out. employees_loop body emps acc' = Inr out" for acc'
    using Cons.IH Cons.prems by simp
  show ?case using r rest by (cases r) simp_all
qed

lemma block_ok_employees:
  assumes "block_ok b"
  shows "\<exists>emps. bind_result (dict_get (py_or b (JObj [])) ''employees'' (JArr []))
                   (\<lambda>v. py_iter (py_or v (JArr []))) = Inr emps \<and> list_all employee_ok emps"
proof (cases b)
  case (JObj kvs)
  show ?thesis
  proof (cases "map_of kvs ''employees''")
    case None
    then show ?thesis using JObj by (simp add: py_or_def bind_result_def)
  next
    case (Some v)
    then have "employees_ok v" using assms JObj by (simp add: block_ok_def)
    then show ?thesis using Some JObj
      by (cases v) (auto simp: employees_ok_def py_or_def bind_result_def)
  qed
qed (use assms in \<open>auto simp: block_ok_def py_or_def bind_result_def\<close>)

lemma blocks_loop_total:
  assumes body: "\<And>emp. employee_ok emp \<Longrightarrow> \<exists>r. body emp = Inr r"
  shows "list_all block_ok blocks \<Longrightarrow> \<exists>out. blocks_loop body blocks acc = Inr out"
proof (induction blocks arbitrary: acc)
  case Nil
  show ?case by simp
next
  case (Cons b blocks)
  then have "block_ok b" by simp
  from block_ok_employees [OF this] obtain v emps where
    g: "dict_get (py_or b (JObj [])) ''employees'' (JArr []) = Inr v"
    and it: "py_iter (py_or v (JArr [])) = Inr emps" and ok: "list_all employee_ok emps"
    by (auto simp: bind_result_Inr)
  from ok body have "\<exists>out. employees_loop body emps acc = Inr out"
    by (intro employees_loop_total) (simp add: list_all_iff)
  then obtain mid where mid: "employees_loop body emps acc = Inr mid" by blast
  from Cons.IH [of mid] Cons.prems obtain out where "blocks_loop body blocks mid = Inr out"
    by auto
  then show ?case using g it mid by simp
qed

lemma payload_ok_collect:
  assumes body: "\<And>emp. employee_ok emp \<Longrightarrow> \<exists>r. body emp = Inr r"
    and ok: "payload_ok p"
  shows "\<exists>out. collect_entries body p = Inr out"
proof -
  from ok obtain kvs where p: "p = JObj kvs" by (cases p) (auto simp: payload_ok_def)
  show ?thesis
  proof (cases "map_of kvs ''department_employees''")
    case None
    then show ?thesis by (simp add: p collect_entries_def bind_result_def py_or_def)
  next
    case (Some v)
    show ?thesis
    proof (cases "truthy v")
      case False
      then show ?thesis using Some by (simp add: p collect_entries_def bind_result_def py_or_def)
    next
      case True
      then obtain blocks where v: "v = JArr blocks" and all: "list_all block_ok blocks"
        using ok Some p by (cases v) (auto simp: payload_ok_def)
      from blocks_loop_total [of body blocks "[]", OF body all]
      show ?thesis using Some v True by (simp add: p collect_entries_def bind_result_def py_or_def)
    qed
  qed
qed

lemma payload_ok_app: "payload_ok p \<Longrightarrow> \<exists>es. to_directory_entries p = Inr es"
  using payload_ok_collect [of employee_entry_app p, OF employee_ok_app]
  by (auto simp: to_directory_entries_def bind_result_def)

lemma employee_entry_name: "employee_entry emp = Inr (Some x) \<Longrightarrow> name x \<noteq> [] \<and> strip (name x) = name x"
  unfolding employee_entry_def
  by (elim bind_result_InrE) (auto split: if_splits dest: normalize_Inr_stripped elim!: bind_result_InrE)

lemma employees_loop_all:
  assumes body: "\<And>emp x. body emp = Inr (Some x) \<Longrightarrow> P x"
  shows "employees_loop body emps acc = Inr out \<Longrightarrow> list_all P acc \<Longrightarrow> list_all P out"
proof (induction emps arbitrary: acc)
  case Nil
  then show ?case by simp
next
  case (Cons emp emps)
  then show ?case using body [of emp]
    by (auto split: sum.splits option.splits)
qed

lemma blocks_loop_all:
  assumes body: "\<And>emp x. body emp = Inr (Some x) \<Longrightarrow> P x"
  shows "blocks_loop body blocks acc = Inr out \<Longrightarrow> list_all P acc \<Longrightarrow> list_all P out"
proof (induction blocks arbitrary: acc)
  case Nil
  then show ?case by simp
next
  case (Cons b blocks)
  then show ?case using employees_loop_all [of body P, OF body]
    by (auto split: sum.splits)
qed

lemma collect_entries_all:
  assumes body: "\<And>emp x. body emp = Inr (Some x) \<Longrightarrow> P x"
  shows "collect_entries body p = Inr out \<Longrightarrow> list_all P out"
  unfolding collect_entries_def
  using blocks_loop_all [of body P _ "[]", OF body]
  by (elim bind_result_InrE) simp

lemma dedupe_subset: "set (dedupe es) \<subseteq> set es"
  using dedupe_loop_subseq [of es "{}"] by (auto simp: dedupe_def elim: list_emb_set)

lemma to_entries_names:
  assumes "to_entries p = Inr es"
  shows "list_all (\<lambda>x. name x \<noteq> [] \<and> strip (name x) = name x) es"
proof -
  from assms obtain raw where c: "collect_entries employee_entry p = Inr raw" and es: "es = dedupe raw"
    unfolding to_entries_def by (elim bind_result_InrE) auto
  have "list_all (\<lambda>x. name x \<noteq> [] \<and> strip (name x) = name x) raw"
    using c by (rule collect_entries_all [rotated]) (rule employee_entry_name)
  then show ?thesis using dedupe_subset [of raw] by (auto simp: es list_all_iff)
qed

lemma employee_entry_nameless:
  assumes "dict_get emp ''contact_name'' (JStr []) = Inr v" and "normalize v = Inr []"
  shows "employee_entry emp = Inr None"
  by (simp add: employee_entry_def assms bind_result_simps)

lemma normalize_blank:
  "normalize JNull = Inr []"
  "list_all is_space s \<Longrightarrow> normalize (JStr s) = Inr []"
  by (auto simp: normalize_def py_or_def strip_def lstrip_def rstrip_def list_all_iff
        dest: set_dropWhileD)

text \<open>The extraction on a payload of the expected shape.\<close>

lemma normalize_JStr: "normalize (JStr s) = Inr (strip s)"
  by (cases s) (simp_all add: normalize_def py_or_def strip_def lstrip_def rstrip_def)

lemma employee_entry_json:
  "employee_entry (employee_json f) =
     Inr (if strip (fst f) = [] then None else Some (entry_of_fields f))"
  by (cases f) (simp add: employee_json_def employee_entry_def entry_of_fields_def
        bind_result_simps normalize_JStr)

lemma employee_entry_app_json:
  "employee_entry_app (employee_json f) =
     Inr (if strip (fst f) = [] then None else Some (entry_of_fields f))"
  by (cases f) (simp add: employee_json_def employee_entry_app_unfold entry_of_fields_def
        bind_result_simps normalize_JStr format_us_phone_app_stripped)

lemma employees_loop_json:
  assumes "\<And>f. body (employee_json f) = Inr (if strip (fst f) = [] then None else Some (entry_of_fields f))"
  shows "employees_loop body (map employee_json emps) acc =
     Inr (acc @ map entry_of_fields (filter (\<lambda>f. strip (fst f) \<noteq> []) emps))"
  by (induction emps arbitrary: acc) (simp_all add: assms)

lemma py_or_employees: "py_iter (py_or (JArr xs) (JArr [])) = Inr xs"
  by (cases xs) (simp_all add: py_or_def)

lemma blocks_loop_json:
  assumes "\<And>f. body (employee_json f) = Inr (if strip (fst f) = [] then None else Some (entry_of_fields f))"
  shows "blocks_loop body (map (\<lambda>emps. JObj [(''employees'', JArr (map employee_json emps))]) depts) acc =
     Inr (acc @ entries_in_order depts)"
proof (induction depts arbitrary: acc)
  case Nil
  show ?case by (simp add: entries_in_order_def)
next
  case (Cons d depts)
  show ?case
    using Cons.IH
    by (simp add: py_or_def [of "JObj _"] py_or_employees employees_loop_json [of body, OF assms]
          entries_in_order_def)
qed

lemma collect_entries_json:
  assumes "\<And>f. body (employee_json f) = Inr (if strip (fst f) = [] then None else Some (entry_of_fields f))"
  shows "collect_entries body (payload_json depts) = Inr (entries_in_order depts)"
  using blocks_loop_json [of body depts "[]", OF assms]
  by (simp add: collect_entries_def payload_json_def bind_result_simps py_or_employees)

lemma identity_key_same: "identity_key a = identity_key b \<longleftrightarrow> same_identity a b"
  by (auto simp: identity_key_def same_identity_def)

lemma same_identity_sym: "same_identity a b \<longleftrightarrow> same_identity b a"
  by (auto simp: same_identity_def)

lemma identity_key_seen:
  "identity_key e \<in> set (map identity_key ds) \<longleftrightarrow> list_ex (\<lambda>d. same_identity d e) ds"
proof -
  have "identity_key e \<in> set (map identity_key ds)
      \<longleftrightarrow> (\<exists>d \<in> set ds. identity_key d = identity_key e)"
    by (metis (no_types) image_iff set_map)
  then show ?thesis by (simp add: list_ex_iff identity_key_same)
qed

lemma dedupe_keep_first: "dedupe es = keep_first es"
  using dedupe_loop_first [of es "{}"]
  by (simp only: dedupe_def keep_first_def identity_key_seen Un_empty_left)

text \<open>The two loops append, in traversal order, what the loop body gives for each employee.\<close>

lemma employees_loop_appended:
  "employees_loop body emps acc = Inr out \<Longrightarrow> out = acc @ concat (map (appended body) emps)"
proof (induction emps arbitrary: acc)
  case Nil
  then show ?case by simp
next
  case (Cons emp emps)
  show ?case
  proof (cases "body emp")
    case (Inl e)
    then show ?thesis using Cons.prems by simp
  next
    case (Inr r)
    show ?thesis
    proof (cases r)
      case None
      then show ?thesis using Inr Cons.prems Cons.IH [of acc] by (simp add: appended_def)
    next
      case (Some x)
      then show ?thesis using Inr Cons.prems Cons.IH [of "acc @ [x]"] by (simp add: appended_def)
    qed
  qed
qed

lemma guarded_sequence:
  assumes "dict_get (py_or obj (JObj [])) k (JArr []) = Inr v"
    and "py_iter (py_or v (JArr [])) = Inr xs"
  shows "xs = sequence_under k obj"
proof (cases obj)
  case (JObj kvs)
  then have obj: "py_or obj (JObj []) = JObj kvs"
    by (cases kvs) (simp_all add: py_or_def)
  show ?thesis
  proof (cases "map_of kvs k")
    case None
    then show ?thesis using assms JObj obj
      by (auto simp: sequence_under_def py_or_def)
  next
    case (Some w)
    then have "v = w" using assms(1) obj by simp
    then show ?thesis using assms(2) Some JObj
      by (auto simp: sequence_under_def py_or_def elements_def split: if_splits)
  qed
qed (use assms in \<open>auto simp: sequence_under_def py_or_def split: if_splits\<close>)

lemma blocks_loop_appended:
  "blocks_loop body blocks acc = Inr out \<Longrightarrow>
     out = acc @ concat (map (\<lambda>block. concat (map (appended body) (sequence_under ''employees'' block))) blocks)"
proof (induction blocks arbitrary: acc)
  case Nil
  then show ?case by simp
next
  case (Cons b blocks)
  from Cons.prems obtain v emps mid where
    g: "dict_get (py_or b (JObj [])) ''employees'' (JArr []) = Inr v"
    and it: "py_iter (py_or v (JArr [])) = Inr emps"
    and mid: "employees_loop body emps acc = Inr mid"
    and rest: "blocks_loop body blocks mid = Inr out"
    by (auto split: sum.splits)
  have emps: "emps = sequence_under ''employees'' b"
    using g it by (rule guarded_sequence)
  show ?case
    using Cons.IH [OF rest] employees_loop_appended [OF mid] by (simp add: emps)
qed

lemma collect_entries_traversal:
  assumes "collect_entries body p = Inr out"
  shows "out = traversal body p"
proof -
  from assms obtain v blocks where
    g: "dict_get p ''department_employees'' (JArr []) = Inr v"
    and it: "py_iter (py_or v (JArr [])) = Inr blocks"
    and loop: "blocks_loop body blocks [] = Inr out"
    unfolding collect_entries_def by (elim bind_result_InrE)
  from g obtain kvs where p: "p = JObj kvs" by (cases p) auto
  then have "py_or p (JObj []) = p" by (cases kvs) (simp_all add: py_or_def)
  then have "blocks = sequence_under ''department_employees'' p"
    using g it guarded_sequence [of p "''department_employees''" v blocks] by simp
  then show ?thesis using blocks_loop_appended [OF loop] by (simp add: traversal_def)
qed

lemma employee_entry_app_nameless:
  assumes name: "dict_get (JObj kvs) ''contact_name'' (JStr []) = Inr v" "normalize v = Inr []"
    and ok: "field_ok kvs ''employee_position''" "field_ok kvs ''office_number''"
            "field_ok kvs ''email_address''"
  shows "employee_entry_app (JObj kvs) = Inr None"
proof -
  from field_ok_normalize [OF ok(1)] obtain v2 t2 where
    f2: "dict_get (JObj kvs) ''employee_position'' (JStr []) = Inr v2" "normalize v2 = Inr t2" by blast
  from field_ok_normalize [OF ok(2)] obtain v3 t3 where
    f3: "dict_get (JObj kvs) ''office_number'' (JStr []) = Inr v3" "normalize v3 = Inr t3" by blast
  from field_ok_normalize [OF ok(3)] obtain v4 t4 where
    f4: "dict_get (JObj kvs) ''email_address'' (JStr []) = Inr v4" "normalize v4 = Inr t4" by blast
  show ?thesis
    unfolding employee_entry_app_unfold
    by (simp only: name f2 f3 f4 bind_result_simps) simp
qed

text \<open>The definitions that evaluate an extraction on a concrete payload.\<close>

lemmas eval_defs = to_entries_def to_directory_entries_def collect_entries_def bind_result_def
  py_or_def employee_entry_def employee_entry_app_def normalize_def normalize_name_def
  normalize_position_def normalize_email_def dedupe_def strip_def lstrip_def rstrip_def is_space_def

section \<open>Facts about the rendering\<close>

lemma render_loop_concat: "render_loop f es acc = acc @ concat (map f es)"
  by (induction es arbitrary: acc) simp_all

lemma join_nl_terminated: "ls \<noteq> [] \<Longrightarrow> join_nl ls @ [nl] = concat (map (\<lambda>l. l @ [nl]) ls)"
  by (induction ls rule: join_nl.induct) simp_all

lemma entry_lines_block: "concat (map (\<lambda>l. l @ [nl]) (entry_lines e)) = entry_block e"
  by (simp add: entry_lines_def entry_block_def)

lemma lines_directory_text:
  "join_nl (render_loop entry_lines es [''## Employee Phone Number Directory'', []]) @ [nl]
     = directory_text es"
proof -
  have "concat (map (\<lambda>l. l @ [nl]) (concat (map entry_lines es))) = concat (map entry_block es)"
    by (induction es) (simp_all add: entry_lines_block)
  then show ?thesis
    by (simp add: render_loop_concat join_nl_terminated directory_text_def)
qed

lemma rstrip_Nil_iff: "rstrip s = [] \<longleftrightarrow> list_all is_space s"
  by (auto simp: rstrip_def list_all_iff)

lemma rstrip_append:
  "rstrip (p @ x) = (if rstrip x = [] then rstrip p else p @ rstrip x)"
  by (auto simp: rstrip_def dropWhile_append list_all_iff)

lemma is_space_nl: "is_space nl"
  by (simp add: is_space_def nl_def)

lemma rstrip_flush_run: "rstrip (flush_run n) = []"
  by (simp add: rstrip_Nil_iff flush_run_def is_space_nl list_all_iff)

lemma rstrip_sub_scan_nl: "rstrip (sub_scan n (s @ [nl])) = rstrip (sub_scan n s)"
proof (induction s arbitrary: n)
  case Nil
  show ?case by (simp add: rstrip_flush_run)
next
  case (Cons c cs)
  show ?case
  proof (cases "c = nl")
    case True
    then show ?thesis using Cons.IH [of "Suc n"] by simp
  next
    case False
    have "rstrip ((flush_run n @ [c]) @ sub_scan 0 (cs @ [nl]))
        = rstrip ((flush_run n @ [c]) @ sub_scan 0 cs)"
      unfolding rstrip_append [of "flush_run n @ [c]"] Cons.IH [of 0] ..
    then show ?thesis using False by simp
  qed
qed

lemma render_directory_text:
  "render_directory es = rstrip (collapse_newlines (directory_text es)) @ [nl]"
  unfolding render_directory_def Let_def collapse_newlines_def
    lines_directory_text [symmetric] rstrip_sub_scan_nl ..

lemma nl3_separated:
  assumes "c \<noteq> nl" and "sublist [nl, nl, nl] (a @ c # y)"
  shows "sublist [nl, nl, nl] a \<or> sublist [nl, nl, nl] y"
  using assms
  by (auto simp: sublist_append sublist_Cons_right prefix_Cons suffix_def
      append_eq_Cons_conv Cons_eq_append_conv split: if_splits)

lemma nl3_short: "length s < 3 \<Longrightarrow> \<not> sublist [nl, nl, nl] s"
  using sublist_length_le [of "[nl, nl, nl]" s] by auto

lemma nl3_flush_run: "\<not> sublist [nl, nl, nl] (flush_run n)"
  by (rule nl3_short) (simp add: flush_run_def)

lemma nl3_sub_scan: "\<not> sublist [nl, nl, nl] (sub_scan n s)"
proof (induction s arbitrary: n)
  case Nil
  show ?case by (simp add: nl3_flush_run)
next
  case (Cons c cs)
  show ?case
  proof (cases "c = nl")
    case True
    then show ?thesis using Cons.IH [of "Suc n"] by simp
  next
    case False
    then show ?thesis
      using nl3_separated [of c "flush_run n" "sub_scan 0 cs"] nl3_flush_run [of n] Cons.IH [of 0]
      by auto
  qed
qed

lemma rstrip_prefix: "prefix (rstrip s) s"
proof -
  have "rev s = takeWhile is_space (rev s) @ dropWhile is_space (rev s)" by simp
  then have "s = rev (dropWhile is_space (rev s)) @ rev (takeWhile is_space (rev s))"
    by (metis rev_append rev_rev_ident)
  then show ?thesis unfolding rstrip_def by (metis prefixI)
qed

lemma nl3_rstrip_nl:
  assumes "\<not> sublist [nl, nl, nl] s"
  shows "\<not> sublist [nl, nl, nl] (rstrip s @ [nl])"
proof
  assume bad: "sublist [nl, nl, nl] (rstrip s @ [nl])"
  have no: "\<not> sublist [nl, nl, nl] (rstrip s)"
    using assms rstrip_prefix [of s] by (meson prefix_imp_sublist sublist_order.order_trans)
  from bad no obtain xs1 xs2 where split: "[nl, nl, nl] = xs1 @ xs2" "suffix xs1 (rstrip s)" "prefix xs2 [nl]"
    using nl3_short [of "[nl]"] by (auto simp: sublist_append)
  from split(1,3) have "xs1 \<noteq> []" "last xs1 = nl"
    by (auto simp: prefix_Cons append_eq_Cons_conv Cons_eq_append_conv)
  with split(2) have "rstrip s \<noteq> []" "last (rstrip s) = nl"
    by (auto simp: suffix_def)
  then show False using rstrip_last [of s] is_space_nl by simp
qed

lemma nl3_render_directory: "\<not> sublist [nl, nl, nl] (render_directory es)"
  unfolding render_directory_def Let_def collapse_newlines_def
  by (intro nl3_rstrip_nl nl3_sub_scan)

lemma sub_scan_keeps: "c \<in> set s \<Longrightarrow> c \<noteq> nl \<Longrightarrow> c \<in> set (sub_scan n s)"
  by (induction s arbitrary: n) auto

lemma rstrip_nonblank: "c \<in> set s \<Longrightarrow> \<not> is_space c \<Longrightarrow> rstrip s \<noteq> []"
  by (auto simp: rstrip_Nil_iff list_all_iff)

lemma sub_scan_header:
  "sub_scan 0 (''## Employee Phone Number Directory'' @ [nl] @ [nl] @ ''    '' @ x)
     = ''## Employee Phone Number Directory'' @ [nl] @ [nl] @ ''    '' @ sub_scan 0 x"
  by (simp add: nl_def flush_run_def)

lemma sub_scan_hash:
  "sub_scan 0 (''## Employee Phone Number Directory'' @ x)
     = ''## Employee Phone Number Directory'' @ sub_scan 0 x"
  by (simp add: nl_def flush_run_def)

lemma render_directory_end:
  "\<exists>t. render_directory es = t @ [nl] \<and> t \<noteq> [] \<and> \<not> is_space (last t)"
proof -
  let ?t = "rstrip (collapse_newlines (directory_text es))"
  have "?t \<noteq> []"
    unfolding collapse_newlines_def directory_text_def sub_scan_hash
    by (rule rstrip_nonblank [of "CHR ''#''"]) (simp_all add: is_space_def)
  then show ?thesis using rstrip_last [of "collapse_newlines (directory_text es)"]
    by (simp add: render_directory_text)
qed

lemma render_directory_begin:
  assumes "name e \<noteq> []" and "\<not> is_space (hd (name e))"
  shows "prefix (''## Employee Phone Number Directory'' @ [nl] @ [nl] @ ''    '' @ [hd (name e)])
           (render_directory (e # es))"
proof -
  let ?pfx = "''## Employee Phone Number Directory'' @ [nl] @ [nl] @ ''    '' @ [hd (name e)]"
  obtain rest where shape: "directory_text (e # es)
      = ''## Employee Phone Number Directory'' @ [nl] @ [nl] @ ''    '' @ (hd (name e) # rest)"
    using assms(1) by (cases "name e") (simp_all add: directory_text_def entry_block_def)
  have "hd (name e) \<noteq> nl" using assms(2) is_space_nl by auto
  then have scan: "collapse_newlines (directory_text e_es) = ?pfx @ sub_scan 0 rest"
    if "e_es = e # es" for e_es
    unfolding collapse_newlines_def that shape sub_scan_header by (simp add: flush_run_def)
  have fixed: "rstrip ?pfx = ?pfx"
    using assms(2) by (intro rstrip_fixed) simp
  have "prefix ?pfx (rstrip (?pfx @ sub_scan 0 rest))"
    unfolding rstrip_append [of ?pfx] fixed by simp
  then show ?thesis
    unfolding render_directory_text scan [OF refl] by (rule prefix_prefix)
qed

lemma join_nl_header: "join_nl ((a @ [nl]) # ls) = join_nl (a # [] # ls)"
  by (cases ls) simp_all

lemma entry_lines_app_same: "position e \<noteq> [] \<Longrightarrow> entry_lines_app e = entry_lines e"
  by (simp add: entry_lines_app_def entry_lines_def)

lemma join_nl_render_header:
  "join_nl (render_loop f es [a @ [nl]]) = join_nl (render_loop f es [a, []])"
  by (simp add: render_loop_concat join_nl_header)

lemma render_loop_cong:
  "map f es = map g es \<Longrightarrow> render_loop f es acc = render_loop g es acc"
  by (simp only: render_loop_concat)

lemma sub_scan_run:
  "c \<noteq> nl \<Longrightarrow> sub_scan k (replicate n nl @ c # rest) = flush_run (k + n) @ c # sub_scan 0 rest"
  by (induction n arbitrary: k) simp_all

lemma collapse_newlines_run:
  assumes "c \<noteq> nl"
  shows "collapse_newlines (replicate n nl @ c # rest)
     = (if 3 \<le> n then [nl, nl] else replicate n nl) @ c # collapse_newlines rest"
  using sub_scan_run [OF assms, of 0 n rest] by (simp add: collapse_newlines_def flush_run_def)

section \<open>Claims on the phone formatter\<close>

text \<open>
  C5. For every string \<open>d\<close> of exactly ten digit characters, both versions of the phone
  formatter return an opening parenthesis, the digits 0 to 2, a closing parenthesis and a
  space, the digits 3 to 5, a hyphen, and the digits 6 to 9.
\<close>

theorem format_us_phone_ten_digits:
  assumes "length d = 10" and "list_all is_digit d"
  shows "format_us_phone d = ''('' @ slice 0 3 d @ '') '' @ slice 3 6 d @ ''-'' @ slice 6 10 d
       \<and> format_us_phone_app d = ''('' @ slice 0 3 d @ '') '' @ slice 3 6 d @ ''-'' @ slice 6 10 d"
  using assms by (simp add: format_us_phone_def format_us_phone_app_def digits_only_digits)

theorem format_us_phone_ten_digits_witness:
  "format_us_phone ''5551234567'' = ''(555) 123-4567''
 \<and> format_us_phone_app ''5551234567'' = ''(555) 123-4567''"
  using format_us_phone_ten_digits [of "''5551234567''"]
  by (simp add: slice_def is_digit_def)

text \<open>
  C6. For every string \<open>s\<close> of exactly eleven digit characters whose first character is
  \<open>1\<close>, formatting \<open>s\<close> gives the same result as formatting \<open>s\<close> without its
  first character, in both versions.
\<close>

theorem format_us_phone_leading_one:
  assumes "length s = 11" and "list_all is_digit s" and "startswith1 s"
  shows "format_us_phone s = format_us_phone (drop 1 s)
       \<and> format_us_phone_app s = format_us_phone_app (drop 1 s)"
proof -
  have whole: "digits_only s = s"
    using assms(2) by (rule digits_only_digits)
  have rest: "digits_only (drop 1 s) = drop 1 s"
    using assms(2) by (rule digits_only_drop1)
  have len: "length (drop 1 s) = 10"
    using assms(1) by simp
  show ?thesis
    unfolding format_us_phone_def format_us_phone_app_def whole rest Let_def
    using assms(1,3) len by simp
qed

theorem format_us_phone_leading_one_witness:
  "format_us_phone ''15551234567'' = format_us_phone ''5551234567''
 \<and> format_us_phone_app ''15551234567'' = format_us_phone_app ''5551234567''
 \<and> format_us_phone ''15551234567'' = ''(555) 123-4567''"
  using format_us_phone_leading_one [of "''15551234567''"]
  by (simp add: is_digit_def startswith1_def)
     (simp add: format_us_phone_def digits_only_def or_empty_def is_digit_def slice_def)

text \<open>
  C3, as amended. For every string whose digits are neither exactly ten nor exactly
  eleven starting with \<open>1\<close>, \<^verbatim>\<open>format_us_phone\<close> of
  \<^verbatim>\<open>Employee_List_Formatter.py\<close> returns the trimmed original, while the second
  copy returns the original exactly as passed, without trimming; on the trimmed string,
  which is what its only caller passes, the second copy returns the trimmed original too.
  Both functions are total on strings: no operation they use can raise on a
  \<^verbatim>\<open>str\<close>.
\<close>

theorem format_us_phone_fallback:
  assumes "length (digits_only raw) \<noteq> 10"
    and "\<not> (length (digits_only raw) = 11 \<and> startswith1 (digits_only raw))"
  shows "format_us_phone raw = strip raw
       \<and> format_us_phone_app raw = raw
       \<and> format_us_phone_app (strip raw) = strip raw"
  using assms
  by (auto simp: format_us_phone_def format_us_phone_app_def or_empty_id digits_only_strip
        strip_strip Let_def)

theorem format_us_phone_fallback_witness:
  "format_us_phone '' ext. 12 '' = ''ext. 12''
 \<and> format_us_phone_app '' ext. 12 '' = '' ext. 12 ''
 \<and> format_us_phone_app ''ext. 12'' = ''ext. 12''
 \<and> format_us_phone [] = [] \<and> format_us_phone_app [] = []"
proof -
  have d: "digits_only '' ext. 12 '' = ''12''"
    by (simp add: digits_only_def or_empty_def is_digit_def)
  have s: "strip '' ext. 12 '' = ''ext. 12''"
    by (simp add: strip_def lstrip_def rstrip_def is_space_def)
  have e: "digits_only [] = []" "strip [] = []"
    by (simp_all add: digits_only_def or_empty_def strip_def lstrip_def rstrip_def)
  show ?thesis
    using format_us_phone_fallback [of "'' ext. 12 ''"] format_us_phone_fallback [of "[]"]
    by (simp add: d s e)
qed

text \<open>
  The claim as stated fails on the second copy: with leading and trailing blanks the
  digits are two, and the string comes back with its blanks.
\<close>

theorem format_us_phone_app_keeps_blanks:
  "length (digits_only '' 12 '') \<noteq> 10
 \<and> length (digits_only '' 12 '') \<noteq> 11
 \<and> format_us_phone_app '' 12 '' = '' 12 ''
 \<and> strip '' 12 '' = ''12''
 \<and> format_us_phone_app '' 12 '' \<noteq> strip '' 12 ''"
  by (simp add: format_us_phone_app_def digits_only_def or_empty_def is_digit_def
        strip_def lstrip_def rstrip_def is_space_def)

section \<open>Claims on deduplication\<close>

text \<open>
  C2. For every payload on which the extraction returns, the returned list is the list of
  the entries in traversal order (department order, then employee order within the
  department) with only the first occurrence of each identity kept. Two entries have the
  same identity exactly when their name, position, raw office value and e-mail address
  are all equal as strings: the key of the dedup loop is that tuple of four fields. The
  kept tuples are distinct, every tuple of the input is kept, and the kept entries are a
  subsequence of the input. On a payload of the expected shape the traversal is the
  departments' employees in order, without those that have no name.
\<close>

theorem extraction_keeps_first_occurrences:
  "identity_key e = (name e, position e, office_raw e, email e)
 \<and> dedupe es = keep_first es
 \<and> distinct (map (\<lambda>x. (name x, position x, office_raw x, email x)) (dedupe es))
 \<and> subseq (dedupe es) es
 \<and> set (map (\<lambda>x. (name x, position x, office_raw x, email x)) (dedupe es))
     = set (map (\<lambda>x. (name x, position x, office_raw x, email x)) es)
 \<and> (to_entries p = Inr out \<longrightarrow> out = keep_first (traversal employee_entry p))
 \<and> (to_directory_entries p = Inr out \<longrightarrow> out = keep_first (traversal employee_entry_app p))
 \<and> to_entries (payload_json depts) = Inr (keep_first (entries_in_order depts))
 \<and> to_directory_entries (payload_json depts) = Inr (keep_first (entries_in_order depts))"
proof -
  have key: "identity_key = (\<lambda>x. (name x, position x, office_raw x, email x))"
    by (rule ext) (simp add: identity_key_def)
  have a: "to_entries (payload_json depts) = Inr (keep_first (entries_in_order depts))"
    by (simp add: to_entries_def collect_entries_json [of employee_entry, OF employee_entry_json]
          bind_result_simps dedupe_keep_first)
  have b: "to_directory_entries (payload_json depts) = Inr (keep_first (entries_in_order depts))"
    by (simp add: to_directory_entries_def
          collect_entries_json [of employee_entry_app, OF employee_entry_app_json]
          bind_result_simps dedupe_keep_first)
  have c: "out = keep_first (traversal employee_entry p)" if "to_entries p = Inr out"
  proof -
    from that obtain entries where c: "collect_entries employee_entry p = Inr entries"
      and o: "out = dedupe entries"
      unfolding to_entries_def by (elim bind_result_InrE) auto
    show ?thesis using collect_entries_traversal [OF c] o by (simp add: dedupe_keep_first)
  qed
  have d: "out = keep_first (traversal employee_entry_app p)" if "to_directory_entries p = Inr out"
  proof -
    from that obtain entries where c: "collect_entries employee_entry_app p = Inr entries"
      and o: "out = dedupe entries"
      unfolding to_directory_entries_def by (elim bind_result_InrE) auto
    show ?thesis using collect_entries_traversal [OF c] o by (simp add: dedupe_keep_first)
  qed
  have e1: "distinct (map (\<lambda>x. (name x, position x, office_raw x, email x)) (dedupe es))"
    using dedupe_loop_distinct [of es "{}"] by (simp add: dedupe_def key)
  have e2: "subseq (dedupe es) es"
    using dedupe_loop_subseq [of es "{}"] by (simp add: dedupe_def)
  have e3: "set (map (\<lambda>x. (name x, position x, office_raw x, email x)) (dedupe es))
     = set (map (\<lambda>x. (name x, position x, office_raw x, email x)) es)"
    using dedupe_loop_keys [of es "{}"] by (simp add: dedupe_def key)
  show ?thesis
    using a b c d e1 e2 e3 dedupe_keep_first [of es] by (simp add: identity_key_def)
qed

theorem extraction_keeps_first_occurrences_witness:
  "dedupe
     [\<lparr>name = ''Bob'', position = ''Clerk'', office_raw = ''12'', office_fmt = ''12'', email = ''b@x''\<rparr>,
      \<lparr>name = ''Bob'', position = ''Chief'', office_raw = ''12'', office_fmt = ''12'', email = ''b@x''\<rparr>,
      \<lparr>name = ''Bob'', position = ''Clerk'', office_raw = ''13'', office_fmt = ''13'', email = ''b@x''\<rparr>,
      \<lparr>name = ''Bob'', position = ''Clerk'', office_raw = ''12'', office_fmt = ''12'', email = ''b@y''\<rparr>,
      \<lparr>name = ''Bob'', position = ''Clerk'', office_raw = ''12'', office_fmt = ''(12)'', email = ''b@x''\<rparr>,
      \<lparr>name = ''Rob'', position = ''Clerk'', office_raw = ''12'', office_fmt = ''12'', email = ''b@x''\<rparr>]
   = [\<lparr>name = ''Bob'', position = ''Clerk'', office_raw = ''12'', office_fmt = ''12'', email = ''b@x''\<rparr>,
      \<lparr>name = ''Bob'', position = ''Chief'', office_raw = ''12'', office_fmt = ''12'', email = ''b@x''\<rparr>,
      \<lparr>name = ''Bob'', position = ''Clerk'', office_raw = ''13'', office_fmt = ''13'', email = ''b@x''\<rparr>,
      \<lparr>name = ''Bob'', position = ''Clerk'', office_raw = ''12'', office_fmt = ''12'', email = ''b@y''\<rparr>,
      \<lparr>name = ''Rob'', position = ''Clerk'', office_raw = ''12'', office_fmt = ''12'', email = ''b@x''\<rparr>]
 \<and> to_entries
     (JObj [(''department_employees'',
        JArr [JObj [(''employees'',
                JArr [JObj [(''contact_name'', JStr ''Ann''), (''office_number'', JStr ''7'')],
                      JObj [(''contact_name'', JNull), (''email_address'', JStr ''n@x'')]])],
              JNull,
              JObj [(''employees'',
                JArr [JObj [(''contact_name'', JStr ''Bob'')],
                      JObj [(''contact_name'', JStr '' Ann ''), (''office_number'', JStr ''7 '')],
                      JObj [(''contact_name'', JStr ''Ann''), (''office_number'', JStr ''8'')]])]])])
   = Inr [\<lparr>name = ''Ann'', position = [], office_raw = ''7'', office_fmt = ''7'', email = []\<rparr>,
          \<lparr>name = ''Bob'', position = [], office_raw = [], office_fmt = [], email = []\<rparr>,
          \<lparr>name = ''Ann'', position = [], office_raw = ''8'', office_fmt = ''8'', email = []\<rparr>]
 \<and> keep_first (traversal employee_entry
     (JObj [(''department_employees'',
        JArr [JObj [(''employees'',
                JArr [JObj [(''contact_name'', JStr ''Ann''), (''office_number'', JStr ''7'')],
                      JObj [(''contact_name'', JNull), (''email_address'', JStr ''n@x'')]])],
              JNull,
              JObj [(''employees'',
                JArr [JObj [(''contact_name'', JStr ''Bob'')],
                      JObj [(''contact_name'', JStr '' Ann ''), (''office_number'', JStr ''7 '')],
                      JObj [(''contact_name'', JStr ''Ann''), (''office_number'', JStr ''8'')]])]])]))
   = [\<lparr>name = ''Ann'', position = [], office_raw = ''7'', office_fmt = ''7'', email = []\<rparr>,
      \<lparr>name = ''Bob'', position = [], office_raw = [], office_fmt = [], email = []\<rparr>,
      \<lparr>name = ''Ann'', position = [], office_raw = ''8'', office_fmt = ''8'', email = []\<rparr>]
 \<and> to_directory_entries
     (JObj [(''department_employees'',
        JArr [JObj [(''employees'',
                JArr [JObj [(''contact_name'', JStr ''Ann''), (''office_number'', JStr ''7'')],
                      JObj [(''contact_name'', JNull), (''email_address'', JStr ''n@x'')]])],
              JNull,
              JObj [(''employees'',
                JArr [JObj [(''contact_name'', JStr ''Bob'')],
                      JObj [(''contact_name'', JStr '' Ann ''), (''office_number'', JStr ''7 '')],
                      JObj [(''contact_name'', JStr ''Ann''), (''office_number'', JStr ''8'')]])]])])
   = Inr [\<lparr>name = ''Ann'', position = [], office_raw = ''7'', office_fmt = ''7'', email = []\<rparr>,
          \<lparr>name = ''Bob'', position = [], office_raw = [], office_fmt = [], email = []\<rparr>,
          \<lparr>name = ''Ann'', position = [], office_raw = ''8'', office_fmt = ''8'', email = []\<rparr>]
 \<and> to_entries (payload_json
      [[(''Jane Doe'', ''Manager'', ''555-123-4567'', ''jane@x.com''), (''Bob'', [], ''12'', [])],
       [('' Jane Doe'', ''Manager '', ''555-123-4567'', ''jane@x.com''), (''Al'', [], [], [])]])
   = Inr [\<lparr>name = ''Jane Doe'', position = ''Manager'', office_raw = ''555-123-4567'',
            office_fmt = ''(555) 123-4567'', email = ''jane@x.com''\<rparr>,
          \<lparr>name = ''Bob'', position = [], office_raw = ''12'', office_fmt = ''12'', email = []\<rparr>,
          \<lparr>name = ''Al'', position = [], office_raw = [], office_fmt = [], email = []\<rparr>]"
proof -
  let ?es = "[\<lparr>name = ''Bob'', position = ''Clerk'', office_raw = ''12'', office_fmt = ''12'', email = ''b@x''\<rparr>,
      \<lparr>name = ''Bob'', position = ''Chief'', office_raw = ''12'', office_fmt = ''12'', email = ''b@x''\<rparr>,
      \<lparr>name = ''Bob'', position = ''Clerk'', office_raw = ''13'', office_fmt = ''13'', email = ''b@x''\<rparr>,
      \<lparr>name = ''Bob'', position = ''Clerk'', office_raw = ''12'', office_fmt = ''12'', email = ''b@y''\<rparr>,
      \<lparr>name = ''Bob'', position = ''Clerk'', office_raw = ''12'', office_fmt = ''(12)'', email = ''b@x''\<rparr>,
      \<lparr>name = ''Rob'', position = ''Clerk'', office_raw = ''12'', office_fmt = ''12'', email = ''b@x''\<rparr>]"
  let ?p = "JObj [(''department_employees'',
        JArr [JObj [(''employees'',
                JArr [JObj [(''contact_name'', JStr ''Ann''), (''office_number'', JStr ''7'')],
                      JObj [(''contact_name'', JNull), (''email_address'', JStr ''n@x'')]])],
              JNull,
              JObj [(''employees'',
                JArr [JObj [(''contact_name'', JStr ''Bob'')],
                      JObj [(''contact_name'', JStr '' Ann ''), (''office_number'', JStr ''7 '')],
                      JObj [(''contact_name'', JStr ''Ann''), (''office_number'', JStr ''8'')]])]])]"
  let ?out = "[\<lparr>name = ''Ann'', position = [], office_raw = ''7'', office_fmt = ''7'', email = []\<rparr>,
          \<lparr>name = ''Bob'', position = [], office_raw = [], office_fmt = [], email = []\<rparr>,
          \<lparr>name = ''Ann'', position = [], office_raw = ''8'', office_fmt = ''8'', email = []\<rparr>]"
  let ?depts = "[[(''Jane Doe'', ''Manager'', ''555-123-4567'', ''jane@x.com''), (''Bob'', [], ''12'', [])],
       [('' Jane Doe'', ''Manager '', ''555-123-4567'', ''jane@x.com''), (''Al'', [], [], [])]]"
  have f: "format_us_phone ''7'' = ''7''" "format_us_phone ''8'' = ''8''" "format_us_phone [] = []"
    "format_us_phone_app ''7'' = ''7''" "format_us_phone_app ''8'' = ''8''" "format_us_phone_app [] = []"
    "format_us_phone ''555-123-4567'' = ''(555) 123-4567''" "format_us_phone ''12'' = ''12''"
    by (simp_all add: format_us_phone_def format_us_phone_app_def digits_only_def or_empty_def
          is_digit_def slice_def strip_def lstrip_def rstrip_def is_space_def)
  have s1: "strip ''Jane Doe'' = ''Jane Doe''" "strip '' Jane Doe'' = ''Jane Doe''"
    "strip ''Manager'' = ''Manager''" "strip ''Manager '' = ''Manager''"
    "strip ''555-123-4567'' = ''555-123-4567''" "strip ''jane@x.com'' = ''jane@x.com''"
    "strip ''Bob'' = ''Bob''" "strip ''12'' = ''12''" "strip [] = []" "strip ''Al'' = ''Al''"
    by (simp_all add: strip_def lstrip_def rstrip_def is_space_def)
  have main: "to_entries ?p = Inr ?out"
    by (simp add: eval_defs identity_key_def f)
  have app: "to_directory_entries ?p = Inr ?out"
    by (simp add: eval_defs identity_key_def f)
  have kf: "keep_first ?es = [?es ! 0, ?es ! 1, ?es ! 2, ?es ! 3, ?es ! 5]"
    by (simp add: keep_first_def same_identity_def)
  show ?thesis
    using extraction_keeps_first_occurrences [of "?es ! 0" ?es ?p ?out ?depts] main app kf
    by (simp add: entries_in_order_def entry_of_fields_def keep_first_def same_identity_def s1 f)
qed

text \<open>
  C9. Deduplication is idempotent: the dedup loop applied to its own output returns it
  unchanged, so both renderers give the same text on the list deduplicated once and on
  the list deduplicated twice.
\<close>

theorem dedupe_idempotent:
  "dedupe (dedupe es) = dedupe es
 \<and> render_directory (dedupe (dedupe es)) = render_directory (dedupe es)
 \<and> render_directory_markdown (dedupe (dedupe es)) = render_directory_markdown (dedupe es)"
  by (simp add: dedupe_def dedupe_loop_idem)

theorem dedupe_idempotent_witness:
  "dedupe (dedupe
     [\<lparr>name = ''Bob'', position = [], office_raw = ''12'', office_fmt = ''12'', email = []\<rparr>,
      \<lparr>name = ''Bob'', position = [], office_raw = ''12'', office_fmt = ''12'', email = []\<rparr>])
   = [\<lparr>name = ''Bob'', position = [], office_raw = ''12'', office_fmt = ''12'', email = []\<rparr>]"
  using dedupe_idempotent [of
     "[\<lparr>name = ''Bob'', position = [], office_raw = ''12'', office_fmt = ''12'', email = []\<rparr>,
      \<lparr>name = ''Bob'', position = [], office_raw = ''12'', office_fmt = ''12'', email = []\<rparr>]"]
  by (simp add: dedupe_def identity_key_def)

section \<open>Claims on the extraction\<close>




text \<open>
  C7, as amended. An employee whose normalized name is empty (a name that is absent, null
  or made of whitespace normalizes to the empty string) produces no entry: the loop body
  ends at the \<^verbatim>\<open>continue\<close> and the loop goes on with the list it had, without an
  error. In \<^verbatim>\<open>Employee_List_Formatter.py\<close> this holds whatever the other three
  fields are, since the name is tested first; in the second copy it holds when the other
  three fields are each absent, falsy or a string, since they are normalized before the
  name is tested. Every entry that either extraction function returns has a name that is
  not empty.
\<close>

theorem nameless_employees_are_dropped:
  "(dict_get emp ''contact_name'' (JStr []) = Inr v \<and> normalize v = Inr [] \<longrightarrow>
      employee_entry emp = Inr None
      \<and> employees_loop employee_entry (emp # rest) entries
          = employees_loop employee_entry rest entries
      \<and> appended employee_entry emp = [])
 \<and> (dict_get (JObj kvs) ''contact_name'' (JStr []) = Inr v \<and> normalize v = Inr []
      \<and> field_ok kvs ''employee_position'' \<and> field_ok kvs ''office_number''
      \<and> field_ok kvs ''email_address'' \<longrightarrow>
      employee_entry_app (JObj kvs) = Inr None
      \<and> employees_loop employee_entry_app (JObj kvs # rest) entries
          = employees_loop employee_entry_app rest entries
      \<and> appended employee_entry_app (JObj kvs) = [])
 \<and> normalize JNull = Inr []
 \<and> (list_all is_space s \<longrightarrow> normalize (JStr s) = Inr [])
 \<and> (map_of kvs ''contact_name'' = None \<longrightarrow>
      dict_get (JObj kvs) ''contact_name'' (JStr []) = Inr (JStr []) \<and> normalize (JStr []) = Inr [])
 \<and> (to_entries p = Inr es \<longrightarrow> list_all (\<lambda>x. name x \<noteq> []) es)
 \<and> (to_directory_entries p = Inr es \<longrightarrow> list_all (\<lambda>x. name x \<noteq> []) es)"
proof -
  have a: "employee_entry emp = Inr None
      \<and> employees_loop employee_entry (emp # rest) entries
          = employees_loop employee_entry rest entries
      \<and> appended employee_entry emp = []"
    if "dict_get emp ''contact_name'' (JStr []) = Inr v" "normalize v = Inr []"
    using employee_entry_nameless [OF that] by (simp add: appended_def)
  have b: "employee_entry_app (JObj kvs) = Inr None
      \<and> employees_loop employee_entry_app (JObj kvs # rest) entries
          = employees_loop employee_entry_app rest entries
      \<and> appended employee_entry_app (JObj kvs) = []"
    if "dict_get (JObj kvs) ''contact_name'' (JStr []) = Inr v" "normalize v = Inr []"
      "field_ok kvs ''employee_position''" "field_ok kvs ''office_number''"
      "field_ok kvs ''email_address''"
    using employee_entry_app_nameless [OF that] by (simp add: appended_def)
  have c: "dict_get (JObj kvs) ''contact_name'' (JStr []) = Inr (JStr []) \<and> normalize (JStr []) = Inr []"
    if "map_of kvs ''contact_name'' = None"
    using that by (simp add: normalize_JStr strip_def lstrip_def rstrip_def)
  have d: "list_all (\<lambda>x. name x \<noteq> []) es" if "to_entries p = Inr es"
    using to_entries_names [OF that] by (simp add: list_all_iff)
  have e: "list_all (\<lambda>x. name x \<noteq> []) es" if "to_directory_entries p = Inr es"
    using to_entries_names [OF app_returns_imp [OF that]] by (simp add: list_all_iff)
  show ?thesis using a b c d e normalize_blank by blast
qed

theorem nameless_employees_are_dropped_witness:
  "employee_entry (JObj [(''contact_name'', JStr ''  ''), (''office_number'', JInt 5551234567)])
     = Inr None
 \<and> employee_entry_app (JObj [(''contact_name'', JStr ''  ''), (''office_number'', JStr ''5551234567'')])
     = Inr None
 \<and> employee_entry_app (JObj [(''office_number'', JStr ''5551234567'')]) = Inr None
 \<and> normalize (JStr ''  '') = Inr []
 \<and> to_entries (payload_json [[(''  '', ''Clerk'', [], []), (''Bob'', [], ''12'', [])]])
     = Inr [\<lparr>name = ''Bob'', position = [], office_raw = ''12'', office_fmt = ''12'', email = []\<rparr>]
 \<and> to_directory_entries (payload_json [[(''  '', ''Clerk'', [], []), (''Bob'', [], ''12'', [])]])
     = Inr [\<lparr>name = ''Bob'', position = [], office_raw = ''12'', office_fmt = ''12'', email = []\<rparr>]"
proof -
  let ?p = "payload_json [[(''  '', ''Clerk'', [], []), (''Bob'', [], ''12'', [])]]"
  let ?out = "[\<lparr>name = ''Bob'', position = [], office_raw = ''12'', office_fmt = ''12'', email = []\<rparr>]"
  have b: "to_entries ?p = Inr ?out" "to_directory_entries ?p = Inr ?out"
    by (simp_all add: payload_json_def employee_json_def eval_defs identity_key_def
          format_us_phone_def format_us_phone_app_def digits_only_def or_empty_def is_digit_def)
  have sp: "list_all is_space ''  ''" by (simp add: is_space_def)
  have n: "normalize (JStr ''  '') = Inr []" "normalize (JStr []) = Inr []"
    by (simp_all add: normalize_def py_or_def strip_def lstrip_def rstrip_def is_space_def)
  have ok: "field_ok [(''contact_name'', JStr ''  ''), (''office_number'', JStr ''5551234567'')] k"
    "field_ok [(''office_number'', JStr ''5551234567'')] k" for k
    by (simp_all add: field_ok_def stringy_def)
  show ?thesis
    using nameless_employees_are_dropped [of
        "JObj [(''contact_name'', JStr ''  ''), (''office_number'', JInt 5551234567)]"
        "JStr ''  ''" "[]" "[]"
        "[(''contact_name'', JStr ''  ''), (''office_number'', JStr ''5551234567'')]"
        "''  ''" ?p ?out]
      nameless_employees_are_dropped [of
        "JObj [(''office_number'', JStr ''5551234567'')]"
        "JStr []" "[]" "[]"
        "[(''office_number'', JStr ''5551234567'')]"
        "''  ''" ?p ?out]
      b sp n ok
    by simp
qed

text \<open>
  The claim as stated, for every employee with an empty normalized name, fails on the
  second copy: when the office number of such an employee is a JSON number, its
  normalization raises \<^verbatim>\<open>AttributeError\<close> before the name is tested, while
  \<^verbatim>\<open>to_entries\<close> of \<^verbatim>\<open>Employee_List_Formatter.py\<close> drops the employee and
  returns the empty list.
\<close>

theorem nameless_employee_raises_in_second_copy:
  "to_directory_entries
     (JObj [(''department_employees'',
        JArr [JObj [(''employees'',
          JArr [JObj [(''contact_name'', JStr ''  ''), (''office_number'', JInt 5551234567)]])]])])
   = Inl AttributeError
 \<and> to_entries
     (JObj [(''department_employees'',
        JArr [JObj [(''employees'',
          JArr [JObj [(''contact_name'', JStr ''  ''), (''office_number'', JInt 5551234567)]])]])])
   = Inr []"
  by (simp add: eval_defs)

text \<open>
  C10, as amended. Whenever \<^verbatim>\<open>to_directory_entries\<close> of the second copy returns a
  list, \<^verbatim>\<open>to_entries\<close> returns the same list, with the same five fields in the same
  order; on every tolerated payload the two functions give the same result.
\<close>

theorem extraction_variants_agree:
  "(to_directory_entries p = Inr es \<longrightarrow> to_entries p = Inr es)
 \<and> (payload_ok p \<longrightarrow> to_entries p = to_directory_entries p)"
proof -
  have "to_entries p = to_directory_entries p" if "payload_ok p"
  proof -
    from payload_ok_app [OF that] obtain out where out: "to_directory_entries p = Inr out" by blast
    then show ?thesis using app_returns_imp [OF out] by simp
  qed
  then show ?thesis using app_returns_imp by blast
qed

theorem extraction_variants_agree_witness:
  "to_directory_entries (payload_json [[(''Bob'', [], ''12 '', [])]])
     = Inr [\<lparr>name = ''Bob'', position = [], office_raw = ''12'', office_fmt = ''12'', email = []\<rparr>]
 \<and> to_entries (payload_json [[(''Bob'', [], ''12 '', [])]])
     = Inr [\<lparr>name = ''Bob'', position = [], office_raw = ''12'', office_fmt = ''12'', email = []\<rparr>]
 \<and> payload_ok (JObj [(''department_employees'', JArr [JNull, JObj [(''employees'', JArr [JObj [(''contact_name'', JStr ''Al''), (''email_address'', JNull)]])]])])
 \<and> to_entries (JObj [(''department_employees'', JArr [JNull, JObj [(''employees'', JArr [JObj [(''contact_name'', JStr ''Al''), (''email_address'', JNull)]])]])])
   = to_directory_entries (JObj [(''department_employees'', JArr [JNull, JObj [(''employees'', JArr [JObj [(''contact_name'', JStr ''Al''), (''email_address'', JNull)]])]])])"
proof -
  have app: "to_directory_entries (payload_json [[(''Bob'', [], ''12 '', [])]])
     = Inr [\<lparr>name = ''Bob'', position = [], office_raw = ''12'', office_fmt = ''12'', email = []\<rparr>]"
    by (simp add: payload_json_def employee_json_def eval_defs identity_key_def
          format_us_phone_app_def digits_only_def or_empty_def is_digit_def)
  have ok: "payload_ok (JObj [(''department_employees'', JArr [JNull, JObj [(''employees'', JArr [JObj [(''contact_name'', JStr ''Al''), (''email_address'', JNull)]])]])])"
    by (simp add: payload_ok_def block_ok_def employees_ok_def employee_ok_def field_ok_def stringy_def)
  show ?thesis
    using extraction_variants_agree [of "payload_json [[(''Bob'', [], ''12 '', [])]]"
      "[\<lparr>name = ''Bob'', position = [], office_raw = ''12'', office_fmt = ''12'', email = []\<rparr>]"]
      extraction_variants_agree [of "JObj [(''department_employees'', JArr [JNull, JObj [(''employees'', JArr [JObj [(''contact_name'', JStr ''Al''), (''email_address'', JNull)]])]])]"]
      app ok
    by simp
qed

text \<open>
  The two functions differ on a payload with an employee without a name whose e-mail
  address is a number: \<^verbatim>\<open>to_entries\<close> returns the empty list, the second copy raises.
\<close>

theorem extraction_variants_differ:
  "to_entries
     (JObj [(''department_employees'',
        JArr [JObj [(''employees'',
          JArr [JObj [(''contact_name'', JNull), (''email_address'', JInt 7)]])]])])
   = Inr []
 \<and> to_directory_entries
     (JObj [(''department_employees'',
        JArr [JObj [(''employees'',
          JArr [JObj [(''contact_name'', JNull), (''email_address'', JInt 7)]])]])])
   = Inl AttributeError"
  by (simp add: eval_defs)

section \<open>Claim on the renderer\<close>

text \<open>
  C1. The position has to be emitted on its own line only when it is not empty. The
  renderer of the second copy appends the position line in every case, empty for an empty
  position, and its filter \<^verbatim>\<open>if ln is not None\<close> removes nothing; the two newlines
  that result are fewer than the three the regular expression collapses. So an entry
  without a position is rendered with a blank line between the name and the office line.
  \<^verbatim>\<open>render_directory\<close> of \<^verbatim>\<open>Employee_List_Formatter.py\<close> renders the same entry
  without that line.
\<close>

theorem missing_position_leaves_blank_line:
  "render_directory_markdown
     [\<lparr>name = ''Ann'', position = [], office_raw = ''5551234567'',
       office_fmt = ''(555) 123-4567'', email = []\<rparr>]
   = ''## Employee Phone Number Directory'' @ [nl, nl] @ ''    Ann'' @ [nl, nl]
     @ ''Office: (555) 123-4567'' @ [nl]
 \<and> render_directory
     [\<lparr>name = ''Ann'', position = [], office_raw = ''5551234567'',
       office_fmt = ''(555) 123-4567'', email = []\<rparr>]
   = ''## Employee Phone Number Directory'' @ [nl, nl] @ ''    Ann'' @ [nl]
     @ ''Office: (555) 123-4567'' @ [nl]"
  by (simp add: render_directory_markdown_def render_directory_def entry_lines_app_def
        entry_lines_def collapse_newlines_def flush_run_def rstrip_def is_space_def nl_def)

text \<open>
  \<^verbatim>\<open>render_directory\<close> of \<^verbatim>\<open>Employee_List_Formatter.py\<close> does what the
  specification asks of the renderer. Its result is the text of the specification with
  the runs of three or more newlines collapsed, the trailing whitespace removed and one
  newline appended; it ends with exactly one newline, after a character that is not
  whitespace; it has no three newlines in a row; and when the first name starts with a
  character that is not whitespace, it begins with the header line, one blank line, four
  spaces and that character.
\<close>

theorem render_directory_meets_contract:
  "render_directory es = rstrip (collapse_newlines (directory_text es)) @ [nl]
 \<and> (\<exists>t. render_directory es = t @ [nl] \<and> t \<noteq> [] \<and> \<not> is_space (last t))
 \<and> \<not> sublist [nl, nl, nl] (render_directory es)
 \<and> (es \<noteq> [] \<and> name (hd es) \<noteq> [] \<and> \<not> is_space (hd (name (hd es))) \<longrightarrow>
      prefix (''## Employee Phone Number Directory'' @ [nl] @ [nl] @ ''    '' @ [hd (name (hd es))])
        (render_directory es))
 \<and> (c \<noteq> nl \<longrightarrow>
      collapse_newlines (replicate n nl @ c # rest)
        = (if 3 \<le> n then [nl, nl] else replicate n nl) @ c # collapse_newlines rest)"
proof -
  have "prefix (''## Employee Phone Number Directory'' @ [nl] @ [nl] @ ''    '' @ [hd (name (hd es))])
        (render_directory es)"
    if "es \<noteq> []" "name (hd es) \<noteq> []" "\<not> is_space (hd (name (hd es)))"
    using that render_directory_begin [of "hd es" "tl es"] by simp
  then show ?thesis
    using render_directory_text [of es] render_directory_end [of es] nl3_render_directory [of es]
      collapse_newlines_run [of c n rest]
    by blast
qed

theorem render_directory_meets_contract_witness:
  "render_directory
     [\<lparr>name = ''Ann'', position = [], office_raw = [], office_fmt = [], email = ''a@x.com''\<rparr>,
      \<lparr>name = ''Bob'', position = ''Clerk'', office_raw = [], office_fmt = [], email = []\<rparr>]
   = rstrip (collapse_newlines (directory_text
     [\<lparr>name = ''Ann'', position = [], office_raw = [], office_fmt = [], email = ''a@x.com''\<rparr>,
      \<lparr>name = ''Bob'', position = ''Clerk'', office_raw = [], office_fmt = [], email = []\<rparr>])) @ [nl]
 \<and> prefix (''## Employee Phone Number Directory'' @ [nl] @ [nl] @ ''    A'')
     (render_directory
     [\<lparr>name = ''Ann'', position = [], office_raw = [], office_fmt = [], email = ''a@x.com''\<rparr>,
      \<lparr>name = ''Bob'', position = ''Clerk'', office_raw = [], office_fmt = [], email = []\<rparr>])
 \<and> render_directory
     [\<lparr>name = ''Ann'', position = [], office_raw = [], office_fmt = [], email = ''a@x.com''\<rparr>,
      \<lparr>name = ''Bob'', position = ''Clerk'', office_raw = [], office_fmt = [], email = []\<rparr>]
   = ''## Employee Phone Number Directory'' @ [nl, nl] @ ''    Ann'' @ [nl] @ ''Email: a@x.com''
     @ [nl, nl] @ ''    Bob'' @ [nl] @ ''Clerk'' @ [nl]
 \<and> collapse_newlines ([nl, nl, nl, nl] @ ''a'' @ [nl, nl, nl] @ ''b'' @ [nl, nl] @ ''c'')
   = [nl, nl] @ ''a'' @ [nl, nl] @ ''b'' @ [nl, nl] @ ''c''"
proof -
  have v: "render_directory
     [\<lparr>name = ''Ann'', position = [], office_raw = [], office_fmt = [], email = ''a@x.com''\<rparr>,
      \<lparr>name = ''Bob'', position = ''Clerk'', office_raw = [], office_fmt = [], email = []\<rparr>]
   = ''## Employee Phone Number Directory'' @ [nl, nl] @ ''    Ann'' @ [nl] @ ''Email: a@x.com''
     @ [nl, nl] @ ''    Bob'' @ [nl] @ ''Clerk'' @ [nl]"
    by (simp add: render_directory_def entry_lines_def collapse_newlines_def flush_run_def
          rstrip_def is_space_def nl_def)
  have h: "\<not> is_space (CHR ''A'')" "CHR ''a'' \<noteq> nl" "CHR ''b'' \<noteq> nl" "CHR ''c'' \<noteq> nl"
    by (simp_all add: is_space_def nl_def)
  have r: "replicate 4 nl = [nl, nl, nl, nl]" "replicate 3 nl = [nl, nl, nl]"
    "replicate 2 nl = [nl, nl]"
    by (simp_all add: numeral_eq_Suc)
  have tail: "collapse_newlines ''c'' = ''c''"
    by (simp add: collapse_newlines_def flush_run_def nl_def)
  have c3: "collapse_newlines ([nl, nl] @ ''c'') = [nl, nl] @ ''c''"
    using render_directory_meets_contract [of "[]" "CHR ''c''" 2 "[]"] h
    by (simp add: r collapse_newlines_def flush_run_def)
  have c2: "collapse_newlines ([nl, nl, nl] @ ''b'' @ [nl, nl] @ ''c'') = [nl, nl] @ ''b'' @ [nl, nl] @ ''c''"
    using render_directory_meets_contract [of "[]" "CHR ''b''" 3 "[nl, nl] @ ''c''"] h c3
    by (simp add: r)
  have c1: "collapse_newlines ([nl, nl, nl, nl] @ ''a'' @ [nl, nl, nl] @ ''b'' @ [nl, nl] @ ''c'')
     = [nl, nl] @ ''a'' @ [nl, nl] @ ''b'' @ [nl, nl] @ ''c''"
    using render_directory_meets_contract [of "[]" "CHR ''a''" 4 "[nl, nl, nl] @ ''b'' @ [nl, nl] @ ''c''"] h c2
    by (simp add: r)
  show ?thesis
    using render_directory_meets_contract [of
     "[\<lparr>name = ''Ann'', position = [], office_raw = [], office_fmt = [], email = ''a@x.com''\<rparr>,
      \<lparr>name = ''Bob'', position = ''Clerk'', office_raw = [], office_fmt = [], email = []\<rparr>]"
     "CHR ''a''" 0 "[]"]
      v h c1
    by simp
qed

text \<open>
  The two renderers differ only through the empty position line: on entries whose
  positions are all non-empty they return the same text.
\<close>

theorem renderers_agree_with_positions:
  assumes "list_all (\<lambda>e. position e \<noteq> []) es"
  shows "render_directory_markdown es = render_directory es"
proof -
  have same: "map entry_lines_app es = map entry_lines es"
    using assms by (simp add: list_all_iff entry_lines_app_same)
  have keep: "filter (\<lambda>ln. True) ls = ls" for ls :: "string list"
    by simp
  show ?thesis
    unfolding render_directory_markdown_def render_directory_def keep Let_def
      render_loop_cong [OF same] join_nl_render_header ..
qed

theorem renderers_agree_with_positions_witness:
  "render_directory_markdown
     [\<lparr>name = ''Jane Doe'', position = ''Manager'', office_raw = ''555-123-4567'',
       office_fmt = ''(555) 123-4567'', email = ''jane@x.com''\<rparr>]
   = ''## Employee Phone Number Directory'' @ [nl, nl] @ ''    Jane Doe'' @ [nl]
     @ ''Manager'' @ [nl] @ ''Office: (555) 123-4567'' @ [nl] @ ''Email: jane@x.com'' @ [nl]
 \<and> render_directory
     [\<lparr>name = ''Jane Doe'', position = ''Manager'', office_raw = ''555-123-4567'',
       office_fmt = ''(555) 123-4567'', email = ''jane@x.com''\<rparr>]
   = ''## Employee Phone Number Directory'' @ [nl, nl] @ ''    Jane Doe'' @ [nl]
     @ ''Manager'' @ [nl] @ ''Office: (555) 123-4567'' @ [nl] @ ''Email: jane@x.com'' @ [nl]"
proof -
  have "render_directory
     [\<lparr>name = ''Jane Doe'', position = ''Manager'', office_raw = ''555-123-4567'',
       office_fmt = ''(555) 123-4567'', email = ''jane@x.com''\<rparr>]
   = ''## Employee Phone Number Directory'' @ [nl, nl] @ ''    Jane Doe'' @ [nl]
     @ ''Manager'' @ [nl] @ ''Office: (555) 123-4567'' @ [nl] @ ''Email: jane@x.com'' @ [nl]"
    by (simp add: render_directory_def entry_lines_def collapse_newlines_def flush_run_def
          rstrip_def is_space_def nl_def)
  then show ?thesis
    using renderers_agree_with_positions [of
      "[\<lparr>name = ''Jane Doe'', position = ''Manager'', office_raw = ''555-123-4567'',
       office_fmt = ''(555) 123-4567'', email = ''jane@x.com''\<rparr>]"]
    by simp
qed

section \<open>Claim on the button handler\<close>





end
